(* ===== verification/Events_Prelude.thy ===== *)
theory Events_Prelude
  imports Main "HOL-Library.AList" "HOL-Library.Word"
begin

text \<open>
  Shared vocabulary of the development of \<^verbatim>\<open>src/shared/src/ledger/events.rs\<close>.

  \<^item> \<^bold>\<open>Hash maps.\<close> A Rust \<^verbatim>\<open>HashMap<String, String>\<close> is represented by an
    association list with pairwise distinct keys (\<open>hm_inv\<close>); the order of the list
    stands for the order in which the map happens to iterate, which Rust leaves
    unspecified. Insertion is \<open>AList.update\<close>, removal \<open>AList.delete\<close>, lookup
    \<open>map_of\<close>. The partial function \<open>map_of xs\<close> is the abstract content of the map:
    every statement of the development that is meant to hold for the Rust program is
    phrased through \<open>map_of\<close>, \<open>set\<close> or \<open>length\<close>, never through the position of an
    entry.
  \<^item> \<^bold>\<open>Failures.\<close> A Rust \<^verbatim>\<open>panic!\<close> is a value of type \<open>panic\<close>; a function that may
    panic returns \<open>panic + 'a\<close>. A function returning \<^verbatim>\<open>Result<T, E>\<close> that may also
    panic returns \<open>'e failure + 'a\<close>, with \<open>Err e\<close> for \<^verbatim>\<open>Err(e)\<close>.
  \<^item> \<^bold>\<open>Collections of facts.\<close> \<open>hm_simps\<close> holds the rewrite rules of the hash-map
    representation, \<open>hm_invs\<close> the invariant-preservation rules, \<open>event_defs\<close> the
    unfolding equations of the operations of the components.
\<close>

section \<open>Fact collections and type names\<close>

named_theorems hm_simps "rewrite rules for hash maps represented as association lists"
named_theorems hm_invs "preservation of the distinct-keys invariant"
named_theorems event_defs "defining equations of the modelled operations"

type_synonym ('k, 'v) hash_map = "('k \<times> 'v) list"
type_synonym attrs = "(string, string) hash_map"
type_synonym u64 = "64 word"
type_synonym byte = "8 word"

section \<open>Panics and failures\<close>

datatype panic =
    Unreachable
  | UnwrapNone
  | UnwrapErr
  | NoEntry

datatype 'e failure = Err 'e | Panic panic

definition unwrap :: "'a option \<Rightarrow> panic + 'a" where
  "unwrap x = (case x of None \<Rightarrow> Inl UnwrapNone | Some v \<Rightarrow> Inr v)"

definition ok_or :: "'a option \<Rightarrow> 'e \<Rightarrow> 'e failure + 'a" where
  "ok_or x e = (case x of None \<Rightarrow> Inl (Err e) | Some v \<Rightarrow> Inr v)"

definition unwrap_err :: "'a option \<Rightarrow> 'e failure + 'a" where
  "unwrap_err x = (case x of None \<Rightarrow> Inl (Panic UnwrapErr) | Some v \<Rightarrow> Inr v)"

definition and_then :: "'e + 'a \<Rightarrow> ('a \<Rightarrow> 'e + 'b) \<Rightarrow> 'e + 'b" where
  "and_then r f = (case r of Inl e \<Rightarrow> Inl e | Inr v \<Rightarrow> f v)"

section \<open>The hash-map invariant\<close>

definition hm_inv :: "('k, 'v) hash_map \<Rightarrow> bool" where
  "hm_inv xs = distinct (map fst xs)"

definition hm_keys :: "('k, 'v) hash_map \<Rightarrow> 'k set" where
  "hm_keys xs = fst ` set xs"

section \<open>Lemmas on failures\<close>

lemma unwrap_simps [simp]:
  "unwrap None = Inl UnwrapNone"
  "unwrap (Some v) = Inr v"
  by (simp_all add: unwrap_def)

lemma unwrap_Inr_iff [simp]: "unwrap x = Inr v \<longleftrightarrow> x = Some v"
  by (cases x) simp_all

lemma ok_or_simps [simp]:
  "ok_or None e = Inl (Err e)"
  "ok_or (Some v) e = Inr v"
  by (simp_all add: ok_or_def)

lemma ok_or_Inr_iff [simp]: "ok_or x e = Inr v \<longleftrightarrow> x = Some v"
  by (cases x) simp_all

lemma ok_or_Inl_iff [simp]: "ok_or x e = Inl f \<longleftrightarrow> x = None \<and> f = Err e"
  by (cases x) auto

lemma unwrap_err_simps [simp]:
  "unwrap_err None = Inl (Panic UnwrapErr)"
  "unwrap_err (Some v) = Inr v"
  by (simp_all add: unwrap_err_def)

lemma unwrap_err_Inr_iff [simp]: "unwrap_err x = Inr v \<longleftrightarrow> x = Some v"
  by (cases x) simp_all

lemma unwrap_err_Inl_iff [simp]:
  "unwrap_err x = Inl f \<longleftrightarrow> x = None \<and> f = Panic UnwrapErr"
  by (cases x) auto

lemma and_then_simps [simp]:
  "and_then (Inl e) f = Inl e"
  "and_then (Inr v) f = f v"
  by (simp_all add: and_then_def)

lemma and_then_Inr_iff: "and_then r f = Inr w \<longleftrightarrow> (\<exists>v. r = Inr v \<and> f v = Inr w)"
  by (cases r) simp_all

lemma and_then_Inl_iff:
  "and_then r f = Inl e \<longleftrightarrow> r = Inl e \<or> (\<exists>v. r = Inr v \<and> f v = Inl e)"
  by (cases r) simp_all

lemma and_then_assoc:
  "and_then (and_then r f) g = and_then r (\<lambda>v. and_then (f v) g)"
  by (cases r) simp_all

section \<open>Lemmas on hash maps\<close>

lemma hm_inv_Nil [simp, hm_invs]: "hm_inv []"
  by (simp add: hm_inv_def)

lemma hm_inv_Cons [simp]: "hm_inv ((k, v) # xs) \<longleftrightarrow> k \<notin> hm_keys xs \<and> hm_inv xs"
  by (simp add: hm_inv_def hm_keys_def)

lemma hm_inv_update [simp, hm_invs]: "hm_inv xs \<Longrightarrow> hm_inv (AList.update k v xs)"
  by (simp add: hm_inv_def distinct_update)

lemma hm_inv_delete [simp, hm_invs]: "hm_inv xs \<Longrightarrow> hm_inv (AList.delete k xs)"
  by (simp add: hm_inv_def distinct_delete)

lemma hm_keys_Nil [simp]: "hm_keys [] = {}"
  by (simp add: hm_keys_def)

lemma hm_keys_Cons [simp]: "hm_keys (p # xs) = insert (fst p) (hm_keys xs)"
  by (simp add: hm_keys_def)

lemma hm_keys_dom [hm_simps]: "hm_keys xs = dom (map_of xs)"
  by (simp add: hm_keys_def dom_map_of_conv_image_fst)

lemma hm_keys_update [simp, hm_simps]: "hm_keys (AList.update k v xs) = insert k (hm_keys xs)"
  by (simp add: hm_keys_def dom_update)

lemma hm_keys_delete [simp, hm_simps]: "hm_keys (AList.delete k xs) = hm_keys xs - {k}"
  by (simp add: hm_keys_dom delete_conv')

lemma map_of_update_same [simp, hm_simps]: "map_of (AList.update k v xs) k = Some v"
  by (simp add: update_conv')

lemma map_of_update_other [simp, hm_simps]:
  "k' \<noteq> k \<Longrightarrow> map_of (AList.update k v xs) k' = map_of xs k'"
  by (simp add: update_conv')

lemma map_of_delete_same [simp, hm_simps]: "map_of (AList.delete k xs) k = None"
  by (simp add: delete_conv')

lemma map_of_None_iff_keys [hm_simps]: "map_of xs k = None \<longleftrightarrow> k \<notin> hm_keys xs"
  by (simp add: hm_keys_def map_of_eq_None_iff)

lemma map_of_Some_keys: "map_of xs k = Some v \<Longrightarrow> k \<in> hm_keys xs"
  by (auto simp: hm_keys_dom)

lemma length_update_absent:
  "k \<notin> hm_keys xs \<Longrightarrow> length (AList.update k v xs) = Suc (length xs)"
  by (induction xs) (auto simp: hm_keys_def)

lemma length_update_present:
  "k \<in> hm_keys xs \<Longrightarrow> length (AList.update k v xs) = length xs"
  by (induction xs) (auto simp: hm_keys_def)

lemma length_delete_present:
  "hm_inv xs \<Longrightarrow> k \<in> hm_keys xs \<Longrightarrow> Suc (length (AList.delete k xs)) = length xs"
proof (induction xs)
  case Nil
  then show ?case by simp
next
  case (Cons p xs)
  obtain a b where p: "p = (a, b)" by (cases p)
  show ?case
  proof (cases "a = k")
    case True
    with Cons.prems p have "k \<notin> hm_keys xs" by simp
    then have "AList.delete k xs = xs" by (simp add: hm_keys_def)
    with True p show ?thesis by simp
  next
    case False
    with Cons p show ?thesis by simp
  qed
qed

lemma hm_ext: "hm_inv xs \<Longrightarrow> hm_inv ys \<Longrightarrow> map_of xs = map_of ys \<longleftrightarrow> set xs = set ys"
  unfolding hm_inv_def by (rule map_of_inject_set)

lemma hm_inv_map_of_iff: "hm_inv xs \<Longrightarrow> map_of xs k = Some v \<longleftrightarrow> (k, v) \<in> set xs"
  by (simp add: hm_inv_def)

lemma hm_same_length:
  assumes "hm_inv xs" and "hm_inv ys" and "map_of xs = map_of ys"
  shows "length xs = length ys"
proof -
  from assms have "set xs = set ys" by (simp add: hm_ext)
  then have "set (map fst xs) = set (map fst ys)" by simp
  moreover from assms(1,2) have "distinct (map fst xs)" "distinct (map fst ys)"
    by (simp_all add: hm_inv_def)
  ultimately have "length (map fst xs) = length (map fst ys)"
    by (metis distinct_card)
  then show ?thesis by simp
qed

lemma hm_inv_rev [simp]: "hm_inv (rev xs) \<longleftrightarrow> hm_inv xs"
  by (simp add: hm_inv_def rev_map [symmetric])

lemma map_of_rev_inv: "hm_inv xs \<Longrightarrow> map_of (rev xs) = map_of xs"
  by (simp add: hm_ext)

section \<open>Case analysis on small numbers\<close>

lemma less_16_cases:
  "d < 16 \<longleftrightarrow> d \<in> {0, 1, 2, 3, 4, 5, 6, 7, 8, 9, 10, 11, 12, 13, 14, 15 :: nat}"
  by (simp add: insert_iff) arith

end
