(* ===== verification/Ledger_Event.thy ===== *)
theory Ledger_Event
  imports Events_Prelude
begin

text \<open>
  The event data model of \<^verbatim>\<open>events.rs\<close> and its accessors.

  \<^item> \<open>EventLevel\<close>, \<open>EventType\<close> and the record \<open>Event\<close> are the enums and the struct of
    the source, constructor for constructor and field for field; the attribute map is
    an association list as described in \<^verbatim>\<open>Events_Prelude\<close>.
  \<^item> \<open>fmt\<close> is \<^verbatim>\<open>impl Display for EventType\<close>; \<open>contains_key\<close> and \<open>get\<close> are the methods
    of \<^verbatim>\<open>impl Event\<close>; \<open>index\<close> is \<^verbatim>\<open>impl Index<&str>\<close>, which panics on a missing key;
    \<open>index_mut\<close> is \<^verbatim>\<open>impl IndexMut<&str>\<close>. The latter returns a mutable reference
    into the map: the model returns the event after the call, and the reference is
    the slot of the indexed key in it. \<open>index_assign\<close> is the statement
    \<^verbatim>\<open>event[key] = value\<close>, a call of \<open>index_mut\<close> followed by a write to that slot.
  \<^item> \<open>event_eq\<close> is the derived \<^verbatim>\<open>PartialEq\<close>, with \<open>hm_eq\<close> the equality of the
    standard hash map (equal sizes, every entry of the left found in the right).
  \<^item> \<open>wf_event\<close> is the invariant that the keys of the attribute map are distinct;
    \<open>AEvent\<close>, \<open>abs_event\<close> and the \<open>a_\<close> operations are the abstract specification,
    in which the attributes are a partial function.

  The lemmas give the behaviour of every accessor on both branches, show that the
  \<^verbatim>\<open>unwrap\<close> inside \<open>index_mut\<close> cannot fail, that each operation keeps \<open>wf_event\<close>
  and refines its abstract counterpart, and that the derived equality decides
  equality of abstract events.
\<close>

section \<open>Data\<close>

datatype EventLevel = Block | Tx

datatype EventType = Accepted | Applied | Ibc string | Proposal

record Event =
  event_type :: EventType
  level :: EventLevel
  attributes :: attrs

section \<open>Operations\<close>

fun fmt :: "EventType \<Rightarrow> string" where
  "fmt Accepted = ''accepted''"
| "fmt Applied = ''applied''"
| "fmt (Ibc t) = t"
| "fmt Proposal = ''proposal''"

definition contains_key :: "Event \<Rightarrow> string \<Rightarrow> bool" where
  "contains_key e key = (map_of (attributes e) key \<noteq> None)"

definition get :: "Event \<Rightarrow> string \<Rightarrow> string option" where
  "get e key = map_of (attributes e) key"

definition index :: "Event \<Rightarrow> string \<Rightarrow> panic + string" where
  "index e i = (case map_of (attributes e) i of None \<Rightarrow> Inl NoEntry | Some v \<Rightarrow> Inr v)"

definition index_mut :: "Event \<Rightarrow> string \<Rightarrow> panic + Event" where
  "index_mut e i =
     (let e' = (if \<not> contains_key e i
                then e\<lparr>attributes := AList.update i [] (attributes e)\<rparr>
                else e)
      in and_then (unwrap (map_of (attributes e') i)) (\<lambda>_. Inr e'))"

definition index_assign :: "Event \<Rightarrow> string \<Rightarrow> string \<Rightarrow> panic + Event" where
  "index_assign e i v =
     and_then (index_mut e i)
       (\<lambda>e'. Inr (e'\<lparr>attributes := AList.update i v (attributes e')\<rparr>))"

definition hm_eq :: "attrs \<Rightarrow> attrs \<Rightarrow> bool" where
  "hm_eq xs ys =
     (length xs = length ys \<and> list_all (\<lambda>p. map_of ys (fst p) = Some (snd p)) xs)"

definition event_eq :: "Event \<Rightarrow> Event \<Rightarrow> bool" where
  "event_eq a b =
     (event_type a = event_type b \<and> level a = level b \<and>
      hm_eq (attributes a) (attributes b))"

section \<open>Invariant and abstract specification\<close>

definition wf_event :: "Event \<Rightarrow> bool" where
  "wf_event e = hm_inv (attributes e)"

record AEvent =
  a_type :: EventType
  a_level :: EventLevel
  a_attrs :: "string \<rightharpoonup> string"

definition abs_event :: "Event \<Rightarrow> AEvent" where
  "abs_event e =
     \<lparr>a_type = event_type e, a_level = level e, a_attrs = map_of (attributes e)\<rparr>"

definition a_set :: "AEvent \<Rightarrow> string \<Rightarrow> string \<Rightarrow> AEvent" where
  "a_set a k v = a\<lparr>a_attrs := (a_attrs a)(k \<mapsto> v)\<rparr>"

definition a_touch :: "AEvent \<Rightarrow> string \<Rightarrow> AEvent" where
  "a_touch a k = (if k \<in> dom (a_attrs a) then a else a_set a k [])"

lemmas event_ops_defs [event_defs] =
  contains_key_def get_def index_def index_mut_def index_assign_def
  wf_event_def abs_event_def a_set_def a_touch_def

section \<open>Rendering of the event type\<close>

lemma fmt_eq_Ibc_iff: "fmt k = fmt (Ibc t) \<longleftrightarrow> k = Ibc t \<or> (k \<noteq> Ibc t \<and> fmt k = t)"
  by (cases k) auto

lemma fmt_inj_on_plain:
  "k \<noteq> Ibc (fmt k) \<Longrightarrow> k' \<noteq> Ibc (fmt k') \<Longrightarrow> fmt k = fmt k' \<Longrightarrow> k = k'"
  by (cases k; cases k') auto

section \<open>Lookup\<close>

lemma contains_key_get: "contains_key e k \<longleftrightarrow> get e k \<noteq> None"
  by (simp add: contains_key_def get_def)

lemma contains_key_keys: "contains_key e k \<longleftrightarrow> k \<in> hm_keys (attributes e)"
  by (simp add: contains_key_def map_of_None_iff_keys)

lemma index_get: "index e k = (case get e k of None \<Rightarrow> Inl NoEntry | Some v \<Rightarrow> Inr v)"
  by (simp add: index_def get_def)

lemma index_Inr_iff [simp]: "index e k = Inr v \<longleftrightarrow> get e k = Some v"
  by (simp add: index_get split: option.splits)

lemma index_Inl_iff [simp]: "index e k = Inl p \<longleftrightarrow> p = NoEntry \<and> \<not> contains_key e k"
  by (auto simp: index_def contains_key_def split: option.splits)

section \<open>Mutable indexing\<close>

lemma index_mut_present:
  "contains_key e k \<Longrightarrow> index_mut e k = Inr e"
  by (auto simp: index_mut_def contains_key_def)

lemma index_mut_absent:
  "\<not> contains_key e k \<Longrightarrow>
   index_mut e k = Inr (e\<lparr>attributes := AList.update k [] (attributes e)\<rparr>)"
  by (simp add: index_mut_def)

lemma index_mut_eq:
  "index_mut e k =
     Inr (if contains_key e k then e
          else e\<lparr>attributes := AList.update k [] (attributes e)\<rparr>)"
  by (simp add: index_mut_present index_mut_absent)

lemma index_assign_eq [simp]:
  "index_assign e k v = Inr (e\<lparr>attributes := AList.update k v (attributes e)\<rparr>)"
  by (simp add: index_assign_def index_mut_eq)

lemma get_attributes_update [simp]:
  "get (e\<lparr>attributes := AList.update k v (attributes e)\<rparr>) k' =
     (if k' = k then Some v else get e k')"
  by (simp add: get_def)

lemma contains_key_attributes_update [simp]:
  "contains_key (e\<lparr>attributes := AList.update k v (attributes e)\<rparr>) k' \<longleftrightarrow>
     k' = k \<or> contains_key e k'"
  by (simp add: contains_key_get)

section \<open>Preservation of the invariant\<close>

lemma wf_event_empty [simp, hm_invs]:
  "wf_event \<lparr>event_type = t, level = l, attributes = []\<rparr>"
  by (simp add: wf_event_def)

lemma wf_event_attributes_update [simp, hm_invs]:
  "wf_event e \<Longrightarrow> wf_event (e\<lparr>attributes := AList.update k v (attributes e)\<rparr>)"
  by (simp add: wf_event_def)

lemma wf_event_index_mut [hm_invs]:
  "wf_event e \<Longrightarrow> index_mut e k = Inr e' \<Longrightarrow> wf_event e'"
  by (auto simp: index_mut_eq split: if_splits)

lemma wf_event_index_assign [hm_invs]:
  "wf_event e \<Longrightarrow> index_assign e k v = Inr e' \<Longrightarrow> wf_event e'"
  by auto

section \<open>Refinement of the abstract operations\<close>

lemma abs_event_simps [simp]:
  "a_type (abs_event e) = event_type e"
  "a_level (abs_event e) = level e"
  "a_attrs (abs_event e) = map_of (attributes e)"
  by (simp_all add: abs_event_def)

lemma abs_event_attributes_update:
  "abs_event (e\<lparr>attributes := AList.update k v (attributes e)\<rparr>) = a_set (abs_event e) k v"
  by (simp add: abs_event_def a_set_def update_conv')

lemma get_refines: "get e k = a_attrs (abs_event e) k"
  by (simp add: get_def)

lemma contains_key_refines: "contains_key e k \<longleftrightarrow> k \<in> dom (a_attrs (abs_event e))"
  by (auto simp: contains_key_def)

lemma index_mut_refines:
  "index_mut e k = Inr e' \<Longrightarrow> abs_event e' = a_touch (abs_event e) k"
  by (auto simp: index_mut_eq a_touch_def abs_event_attributes_update
      contains_key_refines split: if_splits)

section \<open>The derived equality\<close>

lemma hm_eq_subset:
  assumes "list_all (\<lambda>p. map_of ys (fst p) = Some (snd p)) xs"
  shows "set xs \<subseteq> set ys"
proof
  fix p
  assume "p \<in> set xs"
  with assms have "map_of ys (fst p) = Some (snd p)"
    by (simp add: list_all_iff)
  then have "(fst p, snd p) \<in> set ys" by (rule map_of_SomeD)
  then show "p \<in> set ys" by simp
qed

lemma hm_inv_distinct: "hm_inv xs \<Longrightarrow> distinct xs"
  by (simp add: hm_inv_def distinct_map)

lemma hm_eq_iff:
  assumes xs: "hm_inv xs" and ys: "hm_inv ys"
  shows "hm_eq xs ys \<longleftrightarrow> map_of xs = map_of ys"
proof
  assume eq: "hm_eq xs ys"
  then have sub: "set xs \<subseteq> set ys" and len: "length xs = length ys"
    by (simp_all add: hm_eq_def hm_eq_subset)
  from xs ys have "card (set xs) = length xs" "card (set ys) = length ys"
    by (simp_all add: hm_inv_distinct distinct_card)
  with len sub have "set xs = set ys"
    by (simp add: card_subset_eq)
  with xs ys show "map_of xs = map_of ys" by (simp add: hm_ext)
next
  assume eq: "map_of xs = map_of ys"
  from xs have "list_all (\<lambda>p. map_of xs (fst p) = Some (snd p)) xs"
    by (auto simp: list_all_iff hm_inv_map_of_iff)
  with eq have "list_all (\<lambda>p. map_of ys (fst p) = Some (snd p)) xs"
    by simp
  moreover from xs ys eq have "length xs = length ys" by (rule hm_same_length)
  ultimately show "hm_eq xs ys" by (simp add: hm_eq_def)
qed

lemma abs_event_eq_iff:
  "abs_event a = abs_event b \<longleftrightarrow>
     event_type a = event_type b \<and> level a = level b \<and>
     map_of (attributes a) = map_of (attributes b)"
  by (auto simp: abs_event_def)

lemma event_eq_abs:
  "wf_event a \<Longrightarrow> wf_event b \<Longrightarrow> event_eq a b \<longleftrightarrow> abs_event a = abs_event b"
  by (simp add: event_eq_def abs_event_eq_iff wf_event_def hm_eq_iff)

section \<open>Properties of the accessors\<close>

text \<open>C4: \<^verbatim>\<open>IndexMut::index_mut\<close> never panics: after the conditional insert the
  \<^verbatim>\<open>unwrap\<close> always finds the key. The event it leaves holds the indexed key, with the
  value it had before or the empty string if it was absent, and every other
  attribute, the type and the level are unchanged.\<close>
theorem index_mut_total:
  "\<exists>e'. index_mut e k = Inr e' \<and>
        get e' k = Some (case get e k of None \<Rightarrow> [] | Some v \<Rightarrow> v) \<and>
        (\<forall>k'. k' \<noteq> k \<longrightarrow> get e' k' = get e k') \<and>
        event_type e' = event_type e \<and> level e' = level e"
  by (auto simp: index_mut_eq contains_key_get)

theorem index_mut_total_witness:
  "\<exists>e'. index_mut \<lparr>event_type = Applied, level = Tx, attributes = [(''log'', ''x'')]\<rparr> ''hash''
          = Inr e' \<and>
        get e' ''hash'' = Some [] \<and> get e' ''log'' = Some ''x''"
proof -
  let ?e = "\<lparr>event_type = Applied, level = Tx, attributes = [(''log'', ''x'')]\<rparr>"
  from index_mut_total [of ?e "''hash''"] obtain e' where
    "index_mut ?e ''hash'' = Inr e'"
    "get e' ''hash'' = Some (case get ?e ''hash'' of None \<Rightarrow> [] | Some v \<Rightarrow> v)"
    "\<forall>k'. k' \<noteq> ''hash'' \<longrightarrow> get e' k' = get ?e k'"
    by blast
  then show ?thesis by (auto simp: get_def)
qed

text \<open>C8: Write then read: the assignment \<^verbatim>\<open>event[k] = v\<close> never panics, and
  afterwards \<^verbatim>\<open>get(k)\<close> returns \<open>v\<close>, \<^verbatim>\<open>contains_key(k)\<close> is true and the lookup of every
  other key is as before.\<close>
theorem index_assign_then_get:
  "\<exists>e'. index_assign e k v = Inr e' \<and> get e' k = Some v \<and> contains_key e' k \<and>
        (\<forall>k'. k' \<noteq> k \<longrightarrow> get e' k' = get e k' \<and> contains_key e' k' = contains_key e k')"
  by simp

theorem index_assign_then_get_witness:
  "\<exists>e'. index_assign \<lparr>event_type = Accepted, level = Tx, attributes = []\<rparr> ''height'' ''7''
          = Inr e' \<and>
        get e' ''height'' = Some ''7'' \<and> contains_key e' ''height'' \<and>
        get e' ''hash'' = None"
proof -
  let ?e = "\<lparr>event_type = Accepted, level = Tx, attributes = []\<rparr>"
  from index_assign_then_get [of ?e "''height''" "''7''"] obtain e' where
    "index_assign ?e ''height'' ''7'' = Inr e'" "get e' ''height'' = Some ''7''"
    "contains_key e' ''height''"
    "\<forall>k'. k' \<noteq> ''height'' \<longrightarrow> get e' k' = get ?e k'"
    by blast
  then show ?thesis by (auto simp: get_def)
qed

text \<open>C33: Reading through \<^verbatim>\<open>Index::index\<close> panics exactly when the key is absent,
  and otherwise returns what \<^verbatim>\<open>get\<close> returns.\<close>
theorem index_panics_iff_absent:
  "(index e k = Inl NoEntry \<longleftrightarrow> \<not> contains_key e k) \<and>
   (index e k = Inr v \<longleftrightarrow> get e k = Some v) \<and>
   (contains_key e k \<longleftrightarrow> (\<exists>w. index e k = Inr w))"
  by (auto simp: contains_key_get)

text \<open>C34: The assignment \<^verbatim>\<open>event[k] = v\<close> keeps the keys of the attribute map
  distinct, and the map grows by one entry exactly when the key was absent.\<close>
theorem index_assign_keeps_wf:
  assumes "wf_event e" and "index_assign e k v = Inr e'"
  shows "wf_event e' \<and>
         length (attributes e') =
           (if contains_key e k then length (attributes e) else Suc (length (attributes e)))"
  using assms
  by (auto simp: contains_key_keys length_update_absent length_update_present)

theorem index_assign_keeps_wf_witness:
  "\<exists>e'. index_assign \<lparr>event_type = Applied, level = Tx, attributes = [(''hash'', ''AB'')]\<rparr>
           ''log'' [] = Inr e' \<and>
        wf_event e' \<and> length (attributes e') = 2 \<and>
        (\<exists>e''. index_assign e' ''log'' ''done'' = Inr e'' \<and>
           wf_event e'' \<and> length (attributes e'') = 2)"
proof -
  let ?e = "\<lparr>event_type = Applied, level = Tx, attributes = [(''hash'', ''AB'')]\<rparr>"
  obtain e' where 1: "index_assign ?e ''log'' [] = Inr e'" by simp
  obtain e'' where 2: "index_assign e' ''log'' ''done'' = Inr e''" by simp
  have "wf_event ?e" by (simp add: wf_event_def)
  from index_assign_keeps_wf [OF this 1] 1
  have e': "wf_event e'" "length (attributes e') = 2" "contains_key e' ''log''"
    by (auto simp: contains_key_def)
  from index_assign_keeps_wf [OF e'(1) 2] e'(2,3)
  have "wf_event e''" "length (attributes e'') = 2" by simp_all
  with 1 2 e' show ?thesis by blast
qed

text \<open>The assignment \<^verbatim>\<open>event[k] = v\<close> implements the update of a partial
  function: the abstract event after the assignment is the abstract event before it
  with \<open>k\<close> mapped to \<open>v\<close>.\<close>
lemma index_assign_refines:
  "\<exists>e'. index_assign e k v = Inr e' \<and> abs_event e' = a_set (abs_event e) k v"
  by (simp add: abs_event_attributes_update)

text \<open>C35: The derived equality of events with distinct attribute keys holds exactly
  when type, level and the attribute maps as partial functions agree; the order in
  which the hash maps iterate is irrelevant.\<close>
theorem event_eq_decides_abs:
  assumes "wf_event a" and "wf_event b"
  shows "event_eq a b \<longleftrightarrow> abs_event a = abs_event b"
  using assms by (rule event_eq_abs)

theorem event_eq_decides_abs_witness:
  "event_eq \<lparr>event_type = Proposal, level = Block, attributes = [(''a'', ''1''), (''b'', ''2'')]\<rparr>
            \<lparr>event_type = Proposal, level = Block, attributes = [(''b'', ''2''), (''a'', ''1'')]\<rparr>"
proof -
  let ?a = "\<lparr>event_type = Proposal, level = Block, attributes = [(''a'', ''1''), (''b'', ''2'')]\<rparr>"
  let ?b = "\<lparr>event_type = Proposal, level = Block, attributes = [(''b'', ''2''), (''a'', ''1'')]\<rparr>"
  have "wf_event ?a" "wf_event ?b" by (simp_all add: wf_event_def)
  moreover have "abs_event ?a = abs_event ?b"
    by (auto simp: abs_event_def)
  ultimately show ?thesis by (simp add: event_eq_decides_abs)
qed

text \<open>C40: The rendering of the event type is injective on \<^verbatim>\<open>Accepted\<close>, \<^verbatim>\<open>Applied\<close>
  and \<^verbatim>\<open>Proposal\<close>, but an \<^verbatim>\<open>Ibc\<close> event whose sub-type string is the rendering of
  another type renders like that type: two types render alike exactly when they are
  equal or one of them is \<^verbatim>\<open>Ibc\<close> of the other's rendering.\<close>
theorem fmt_eq_iff:
  "fmt a = fmt b \<longleftrightarrow> a = b \<or> a = Ibc (fmt b) \<or> b = Ibc (fmt a)"
  by (cases a; cases b) auto

end
