(* ===== verification/Display_Fmt.thy ===== *)
theory Display_Fmt
  imports Events_Prelude
begin

text \<open>
  The string renderings that \<^verbatim>\<open>events.rs\<close> obtains from the Rust standard library.

  \<^item> \<open>u64_to_string\<close> is \<^verbatim>\<open>u64::to_string\<close>, called by \<^verbatim>\<open>Event::new_tx_event\<close> on the
    block height: the decimal digits of the value, most significant first, no sign,
    no leading zero, \<^verbatim>\<open>"0"\<close> for zero. The digit loop \<open>dec_digits\<close> divides by ten
    until the value is below ten; its termination is proved by \<^theory_text>\<open>fun\<close> from the
    guard.
  \<^item> \<open>read_dec\<close> and \<open>read_u64\<close> are the reference readers against which the
    rendering is specified: they are not part of the program. \<open>read_u64\<close> refuses the
    empty string, any non-digit and any value that does not fit 64 bits.

  The lemmas show that the rendering is never empty, consists of digits only, has at
  most twenty characters for a 64-bit value, has no leading zero, and is inverted by
  the reader; hence it is injective.
\<close>

section \<open>Decimal rendering\<close>

definition digit_char :: "nat \<Rightarrow> char" where
  "digit_char d = ''0123456789'' ! d"

fun dec_digits :: "nat \<Rightarrow> string" where
  "dec_digits n =
     (if n < 10 then [digit_char n]
      else dec_digits (n div 10) @ [digit_char (n mod 10)])"

declare dec_digits.simps [simp del]

definition u64_to_string :: "u64 \<Rightarrow> string" where
  "u64_to_string w = dec_digits (unat w)"

section \<open>Reference readers\<close>

definition digit_val :: "char \<Rightarrow> nat option" where
  "digit_val c =
     (let n = (of_char c :: nat)
      in if 48 \<le> n \<and> n \<le> 57 then Some (n - 48) else None)"

fun dec_value :: "nat \<Rightarrow> string \<Rightarrow> nat option" where
  "dec_value acc [] = Some acc"
| "dec_value acc (c # cs) =
     (case digit_val c of None \<Rightarrow> None | Some d \<Rightarrow> dec_value (10 * acc + d) cs)"

definition read_dec :: "string \<Rightarrow> nat option" where
  "read_dec s = (if s = [] then None else dec_value 0 s)"

definition read_u64 :: "string \<Rightarrow> u64 option" where
  "read_u64 s =
     (case read_dec s of
        None \<Rightarrow> None
      | Some n \<Rightarrow> if n < 2 ^ 64 then Some (word_of_nat n) else None)"

definition is_digit :: "char \<Rightarrow> bool" where
  "is_digit c = (digit_val c \<noteq> None)"

section \<open>Digits\<close>

lemma less_10_cases: "d < 10 \<longleftrightarrow> d \<in> {0, 1, 2, 3, 4, 5, 6, 7, 8, 9 :: nat}"
  by auto

lemma digit_val_digit_char [simp]: "d < 10 \<Longrightarrow> digit_val (digit_char d) = Some d"
  unfolding less_10_cases by (auto simp: digit_val_def digit_char_def)

lemma is_digit_digit_char [simp]: "d < 10 \<Longrightarrow> is_digit (digit_char d)"
  by (simp add: is_digit_def)

lemma digit_char_eq_zero_iff: "d < 10 \<Longrightarrow> digit_char d = CHR ''0'' \<longleftrightarrow> d = 0"
  unfolding less_10_cases by (auto simp: digit_char_def)

lemma digit_val_less_10: "digit_val c = Some d \<Longrightarrow> d < 10"
  by (auto simp: digit_val_def Let_def split: if_splits)

section \<open>The digit loop\<close>

lemma dec_digits_small [simp]: "n < 10 \<Longrightarrow> dec_digits n = [digit_char n]"
  by (simp add: dec_digits.simps)

lemma dec_digits_large:
  "10 \<le> n \<Longrightarrow> dec_digits n = dec_digits (n div 10) @ [digit_char (n mod 10)]"
  by (subst dec_digits.simps) simp

lemmas dec_digits_eval = dec_digits.simps digit_char_def

lemma dec_digits_nonempty [simp]: "dec_digits n \<noteq> []"
  by (subst dec_digits.simps) simp

lemma length_dec_digits_pos [simp]: "0 < length (dec_digits n)"
  by simp

lemma list_all_is_digit_dec_digits: "list_all is_digit (dec_digits n)"
proof (induction n rule: dec_digits.induct)
  case (1 n)
  show ?case
  proof (cases "n < 10")
    case True
    then show ?thesis by simp
  next
    case False
    with "1.IH" have "list_all is_digit (dec_digits (n div 10))" by simp
    with False show ?thesis by (simp add: dec_digits_large)
  qed
qed

lemma length_dec_digits_le:
  "0 < k \<Longrightarrow> n < 10 ^ k \<Longrightarrow> length (dec_digits n) \<le> k"
proof (induction n arbitrary: k rule: dec_digits.induct)
  case (1 n)
  show ?case
  proof (cases "n < 10")
    case True
    with "1.prems" show ?thesis by simp
  next
    case False
    from "1.prems" obtain j where k: "k = Suc j" by (cases k) auto
    with False "1.prems" have "0 < j" by (cases j) auto
    moreover from "1.prems" k have "n div 10 < 10 ^ j"
      by (simp add: less_mult_imp_div_less mult.commute)
    ultimately have "length (dec_digits (n div 10)) \<le> j"
      using "1.IH" False by simp
    with False k show ?thesis by (simp add: dec_digits_large)
  qed
qed

lemma hd_dec_digits_zero: "hd (dec_digits n) = CHR ''0'' \<Longrightarrow> n = 0"
proof (induction n rule: dec_digits.induct)
  case (1 n)
  show ?case
  proof (cases "n < 10")
    case True
    with "1.prems" show ?thesis by (simp add: digit_char_eq_zero_iff)
  next
    case False
    with "1.prems" have "hd (dec_digits (n div 10)) = CHR ''0''"
      by (simp add: dec_digits_large)
    with "1.IH" False have "n div 10 = 0" by simp
    with False show ?thesis by simp
  qed
qed

section \<open>Reading back\<close>

lemma dec_value_append:
  "dec_value acc (xs @ ys) =
     (case dec_value acc xs of None \<Rightarrow> None | Some a \<Rightarrow> dec_value a ys)"
  by (induction xs arbitrary: acc) (auto split: option.splits)

lemma dec_value_dec_digits: "dec_value 0 (dec_digits n) = Some n"
proof (induction n rule: dec_digits.induct)
  case (1 n)
  show ?case
  proof (cases "n < 10")
    case True
    then show ?thesis by simp
  next
    case False
    with "1.IH" have "dec_value 0 (dec_digits (n div 10)) = Some (n div 10)" by simp
    with False show ?thesis by (simp add: dec_digits_large dec_value_append)
  qed
qed

lemma read_dec_dec_digits [simp]: "read_dec (dec_digits n) = Some n"
  by (simp add: read_dec_def dec_value_dec_digits)

lemma inj_dec_digits: "dec_digits m = dec_digits n \<Longrightarrow> m = n"
  by (metis read_dec_dec_digits option.inject)

section \<open>64-bit values\<close>

lemma u64_to_string_nonempty [simp]: "u64_to_string w \<noteq> []"
  by (simp add: u64_to_string_def)

lemma read_u64_u64_to_string [simp]: "read_u64 (u64_to_string w) = Some w"
proof -
  have "unat w < 2 ^ 64" using unsigned_less [of w] by simp
  then show ?thesis by (simp add: read_u64_def u64_to_string_def)
qed

lemma inj_u64_to_string: "u64_to_string a = u64_to_string b \<longleftrightarrow> a = b"
  by (metis read_u64_u64_to_string option.inject)

lemma length_u64_to_string_le: "length (u64_to_string w) \<le> 20"
proof -
  have "unat w < 2 ^ 64" using unsigned_less [of w] by simp
  also have "(2::nat) ^ 64 \<le> 10 ^ 20" by simp
  finally show ?thesis
    unfolding u64_to_string_def by (intro length_dec_digits_le) simp_all
qed

lemma list_all_is_digit_u64_to_string: "list_all is_digit (u64_to_string w)"
  by (simp add: u64_to_string_def list_all_is_digit_dec_digits)

lemma u64_to_string_zero [simp]: "u64_to_string 0 = ''0''"
  by (simp add: u64_to_string_def digit_char_def)

end
