(* ===== verification/Tx_Types.thy ===== *)
theory Tx_Types
  imports Events_Prelude
begin

text \<open>
  The interface of the decoded transaction that \<^verbatim>\<open>Event::new_tx_event\<close> consumes. The
  types live in \<^verbatim>\<open>crate::proto\<close>, \<^verbatim>\<open>crate::types::transaction\<close> and
  \<^verbatim>\<open>crate::types::hash\<close>, outside the modelled file, so only what \<^verbatim>\<open>events.rs\<close> uses of
  them is modelled:

  \<^item> \<open>TxType\<close> has the four header variants of the source; their payloads are type
    variables, since the event constructor never looks inside them.
  \<^item> \<open>Tx\<close> is a record scheme with the field \<open>header\<close>; every other part of a
    transaction is in the extension of the record. \<open>update_header\<close> replaces the
    header.
  \<^item> \<^verbatim>\<open>Tx::header_hash\<close> and \<^verbatim>\<open>RawHeader::default()\<close> are not modelled: the event
    constructor takes them as parameters, and the theorems hold for every choice.
  \<^item> \<open>Hash\<close> is a list of bytes (32 of them in the program) and \<open>hash_to_string\<close> its
    \<^verbatim>\<open>Display\<close>, two upper-case hexadecimal digits for each byte. \<open>read_hash\<close> is the
    reference reader against which the rendering is specified.
\<close>

section \<open>Transactions\<close>

datatype ('r, 'w, 'd, 'p) TxType =
    is_Raw: Raw 'r
  | is_Wrapper: Wrapper 'w
  | is_Decrypted: Decrypted 'd
  | is_Protocol: Protocol 'p

record ('r, 'w, 'd, 'p) Tx =
  header :: "('r, 'w, 'd, 'p) TxType"

definition update_header ::
  "('r, 'w, 'd, 'p, 'x) Tx_scheme \<Rightarrow> ('r, 'w, 'd, 'p) TxType
     \<Rightarrow> ('r, 'w, 'd, 'p, 'x) Tx_scheme" where
  "update_header tx t = tx\<lparr>header := t\<rparr>"

section \<open>Hashes and their rendering\<close>

type_synonym Hash = "byte list"

definition hex_char :: "nat \<Rightarrow> char" where
  "hex_char d = ''0123456789ABCDEF'' ! d"

definition byte_hex :: "byte \<Rightarrow> string" where
  "byte_hex b = [hex_char (unat b div 16), hex_char (unat b mod 16)]"

definition hash_to_string :: "Hash \<Rightarrow> string" where
  "hash_to_string h = concat (map byte_hex h)"

section \<open>Reference reader\<close>

definition hex_val :: "char \<Rightarrow> nat option" where
  "hex_val c =
     (let n = (of_char c :: nat)
      in if 48 \<le> n \<and> n \<le> 57 then Some (n - 48)
         else if 65 \<le> n \<and> n \<le> 70 then Some (n - 55)
         else None)"

fun read_hash :: "string \<Rightarrow> Hash option" where
  "read_hash [] = Some []"
| "read_hash [c] = None"
| "read_hash (a # b # cs) =
     (case hex_val a of
        None \<Rightarrow> None
      | Some x \<Rightarrow>
          (case hex_val b of
             None \<Rightarrow> None
           | Some y \<Rightarrow> map_option ((#) (word_of_nat (16 * x + y))) (read_hash cs)))"

definition is_upper_hex :: "char \<Rightarrow> bool" where
  "is_upper_hex c = (hex_val c \<noteq> None)"

lemmas hash_eval = hash_to_string_def byte_hex_def hex_char_def

section \<open>Lemmas on transactions\<close>

lemma header_update_header [simp]: "header (update_header tx t) = t"
  by (simp add: update_header_def)

lemma update_header_twice [simp]:
  "update_header (update_header tx s) t = update_header tx t"
  by (simp add: update_header_def)

lemma update_header_field_update [simp]:
  "update_header (tx\<lparr>header := s\<rparr>) t = update_header tx t"
  by (simp add: update_header_def)

lemma TxType_cases4:
  "is_Raw t \<or> is_Wrapper t \<or> is_Decrypted t \<or> is_Protocol t"
  by (cases t) simp_all

section \<open>Lemmas on the rendering\<close>

lemma hex_val_hex_char [simp]: "d < 16 \<Longrightarrow> hex_val (hex_char d) = Some d"
  unfolding less_16_cases by (auto simp: hex_val_def hex_char_def)

lemma is_upper_hex_hex_char [simp]: "d < 16 \<Longrightarrow> is_upper_hex (hex_char d)"
  by (simp add: is_upper_hex_def)

lemma unat_byte_div_16 [simp]: "unat (b :: byte) div 16 < 16"
proof -
  have "unat b < 2 ^ 8" using unsigned_less [of b] by simp
  then show ?thesis by simp
qed

lemma byte_of_nibbles [simp]:
  "word_of_nat (16 * (unat (b :: byte) div 16) + unat b mod 16) = b"
  by (simp add: mult_div_mod_eq)

lemma length_byte_hex [simp]: "length (byte_hex b) = 2"
  by (simp add: byte_hex_def)

lemma length_hash_to_string [simp]: "length (hash_to_string h) = 2 * length h"
  by (induction h) (simp_all add: hash_to_string_def)

lemma hash_to_string_Nil [simp]: "hash_to_string [] = []"
  by (simp add: hash_to_string_def)

lemma hash_to_string_Cons:
  "hash_to_string (b # h) =
     hex_char (unat b div 16) # hex_char (unat b mod 16) # hash_to_string h"
  by (simp add: hash_to_string_def byte_hex_def)

lemma hash_to_string_eq_Nil_iff [simp]: "hash_to_string h = [] \<longleftrightarrow> h = []"
  by (cases h) (simp_all add: hash_to_string_Cons)

lemma list_all_is_upper_hex_hash: "list_all is_upper_hex (hash_to_string h)"
  by (induction h) (simp_all add: hash_to_string_Cons)

lemma read_hash_hash_to_string [simp]: "read_hash (hash_to_string h) = Some h"
  by (induction h) (simp_all add: hash_to_string_Cons)

lemma inj_hash_to_string: "hash_to_string a = hash_to_string b \<longleftrightarrow> a = b"
  by (metis read_hash_hash_to_string option.inject)

end
