(* ===== verification/Tx_Event.thy ===== *)
theory Tx_Event
  imports Ledger_Event Display_Fmt Tx_Types
begin

text \<open>
  The constructor \<^verbatim>\<open>Event::new_tx_event\<close> of \<^verbatim>\<open>events.rs\<close>.

  \<open>new_tx_event header_hash raw_default tx height\<close> follows the source statement by
  statement: the \<^verbatim>\<open>match\<close> on the header of the transaction builds an empty event of
  the right type and assigns its \<^verbatim>\<open>hash\<close> attribute through \<open>index_assign\<close>; the
  wildcard arm, reached by a raw header only, is the \<^verbatim>\<open>unreachable!()\<close> panic; then
  \<^verbatim>\<open>height\<close> and \<^verbatim>\<open>log\<close> are assigned. The two parameters stand for
  \<^verbatim>\<open>Tx::header_hash\<close> and \<^verbatim>\<open>RawHeader::default()\<close>, which the file imports.

  The lemmas \<open>new_tx_event_ok\<close> and \<open>new_tx_event_raw\<close> give the result on every
  input; the properties below are derived from them. None of them depends on the
  order in which the attribute map iterates.
\<close>

section \<open>The constructor\<close>

definition new_tx_event ::
  "(('r, 'w, 'd, 'p, 'x) Tx_scheme \<Rightarrow> Hash) \<Rightarrow> 'r \<Rightarrow> ('r, 'w, 'd, 'p, 'x) Tx_scheme \<Rightarrow> u64
     \<Rightarrow> panic + Event" where
  "new_tx_event header_hash raw_default tx height =
     and_then
       (case header tx of
          Wrapper wrapper \<Rightarrow>
            index_assign \<lparr>event_type = Accepted, level = Tx, attributes = []\<rparr>
              ''hash'' (hash_to_string (header_hash tx))
        | Decrypted decrypted \<Rightarrow>
            index_assign \<lparr>event_type = Applied, level = Tx, attributes = []\<rparr>
              ''hash''
              (hash_to_string (header_hash (update_header tx (Raw raw_default))))
        | Protocol protocol \<Rightarrow>
            index_assign \<lparr>event_type = Applied, level = Tx, attributes = []\<rparr>
              ''hash'' (hash_to_string (header_hash tx))
        | _ \<Rightarrow> Inl Unreachable)
       (\<lambda>event. and_then (index_assign event ''height'' (u64_to_string height))
          (\<lambda>event. index_assign event ''log'' []))"

section \<open>What the constructor is specified against\<close>

definition tx_event_type :: "('r, 'w, 'd, 'p) TxType \<Rightarrow> EventType" where
  "tx_event_type t = (if is_Wrapper t then Accepted else Applied)"

definition hashed_tx ::
  "'r \<Rightarrow> ('r, 'w, 'd, 'p, 'x) Tx_scheme \<Rightarrow> ('r, 'w, 'd, 'p, 'x) Tx_scheme" where
  "hashed_tx raw_default tx =
     (if is_Decrypted (header tx) then update_header tx (Raw raw_default) else tx)"

definition tx_attrs :: "string \<Rightarrow> u64 \<Rightarrow> attrs" where
  "tx_attrs hash height =
     [(''hash'', hash), (''height'', u64_to_string height), (''log'', [])]"

section \<open>The result on every input\<close>

lemma new_tx_event_ok:
  "\<not> is_Raw (header tx) \<Longrightarrow>
   new_tx_event hh rd tx h =
     Inr \<lparr>event_type = tx_event_type (header tx), level = Tx,
          attributes = tx_attrs (hash_to_string (hh (hashed_tx rd tx))) h\<rparr>"
  by (cases "header tx")
    (simp_all add: new_tx_event_def tx_event_type_def hashed_tx_def tx_attrs_def)

lemma new_tx_event_raw:
  "is_Raw (header tx) \<Longrightarrow> new_tx_event hh rd tx h = Inl Unreachable"
  by (cases "header tx") (simp_all add: new_tx_event_def)

lemma new_tx_event_Inr_iff:
  "new_tx_event hh rd tx h = Inr ev \<longleftrightarrow>
     \<not> is_Raw (header tx) \<and>
     ev = \<lparr>event_type = tx_event_type (header tx), level = Tx,
           attributes = tx_attrs (hash_to_string (hh (hashed_tx rd tx))) h\<rparr>"
  by (cases "is_Raw (header tx)") (auto simp: new_tx_event_ok new_tx_event_raw)

lemma new_tx_event_Inl_iff:
  "new_tx_event hh rd tx h = Inl p \<longleftrightarrow> is_Raw (header tx) \<and> p = Unreachable"
  by (cases "is_Raw (header tx)") (auto simp: new_tx_event_ok new_tx_event_raw)

lemma get_tx_attrs [simp]:
  "get \<lparr>event_type = t, level = l, attributes = tx_attrs s h\<rparr> k =
     (if k = ''hash'' then Some s
      else if k = ''height'' then Some (u64_to_string h)
      else if k = ''log'' then Some []
      else None)"
  by (simp add: get_def tx_attrs_def)

lemma hm_keys_tx_attrs [simp]: "hm_keys (tx_attrs s h) = {''hash'', ''height'', ''log''}"
  by (auto simp: tx_attrs_def)

lemma hm_inv_tx_attrs [simp, hm_invs]: "hm_inv (tx_attrs s h)"
  by (simp add: tx_attrs_def)

lemma hashed_tx_decrypted [simp]:
  "hashed_tx rd (update_header tx (Decrypted d)) = update_header tx (Raw rd)"
  by (simp add: hashed_tx_def)

lemma hashed_tx_other [simp]: "\<not> is_Decrypted (header tx) \<Longrightarrow> hashed_tx rd tx = tx"
  by (simp add: hashed_tx_def)

section \<open>Properties of the constructor\<close>

text \<open>C2: For a wrapper, decrypted or protocol transaction \<^verbatim>\<open>new_tx_event\<close> returns an
  event of level \<^verbatim>\<open>Tx\<close>, of type \<^verbatim>\<open>Accepted\<close> for a wrapper and \<^verbatim>\<open>Applied\<close> otherwise,
  whose attributes are exactly \<^verbatim>\<open>hash\<close>, \<^verbatim>\<open>height\<close> and \<^verbatim>\<open>log\<close>: \<^verbatim>\<open>height\<close> is the decimal
  rendering of the block height, \<^verbatim>\<open>log\<close> is empty, and \<^verbatim>\<open>hash\<close> is the rendering of the
  header hash of the transaction, taken after the header has been replaced by the
  default raw header if the transaction is a decrypted one.\<close>
theorem new_tx_event_post:
  assumes "\<not> is_Raw (header tx)"
  shows "\<exists>ev. new_tx_event hh rd tx h = Inr ev \<and>
           level ev = Tx \<and>
           event_type ev = (if is_Wrapper (header tx) then Accepted else Applied) \<and>
           get ev ''hash'' =
             Some (hash_to_string
               (hh (if is_Decrypted (header tx) then update_header tx (Raw rd) else tx))) \<and>
           get ev ''height'' = Some (u64_to_string h) \<and>
           get ev ''log'' = Some [] \<and>
           hm_keys (attributes ev) = {''hash'', ''height'', ''log''} \<and>
           wf_event ev"
  using assms
  by (simp add: new_tx_event_ok tx_event_type_def hashed_tx_def wf_event_def)

theorem new_tx_event_post_witness:
  "\<exists>ev. new_tx_event (\<lambda>tx. [0xAB, 0x01]) ()
           \<lparr>header = (Decrypted (5::nat) :: (unit, nat, nat, nat) TxType)\<rparr> 42 = Inr ev \<and>
        level ev = Tx \<and> event_type ev = Applied \<and>
        get ev ''hash'' = Some ''AB01'' \<and> get ev ''height'' = Some ''42'' \<and>
        get ev ''log'' = Some [] \<and>
        hm_keys (attributes ev) = {''hash'', ''height'', ''log''} \<and> wf_event ev"
proof -
  let ?tx = "\<lparr>header = (Decrypted (5::nat) :: (unit, nat, nat, nat) TxType)\<rparr>"
  have "\<not> is_Raw (header ?tx)" by simp
  from new_tx_event_post [OF this, of "\<lambda>tx. [0xAB, 0x01]" "()" 42]
  show ?thesis
    by (simp add: hash_eval u64_to_string_def dec_digits_eval)
qed

text \<open>C5: \<^verbatim>\<open>new_tx_event\<close> fails exactly on a transaction with a raw header, and then
  with the \<^verbatim>\<open>unreachable!()\<close> panic: it never returns a defaulted event for it and never
  panics for any other transaction.\<close>
theorem new_tx_event_unreachable:
  "(new_tx_event hh rd tx h = Inl Unreachable \<longleftrightarrow> is_Raw (header tx)) \<and>
   ((\<exists>ev. new_tx_event hh rd tx h = Inr ev) \<longleftrightarrow> \<not> is_Raw (header tx)) \<and>
   (\<forall>p. new_tx_event hh rd tx h = Inl p \<longrightarrow> p = Unreachable)"
  by (simp add: new_tx_event_Inl_iff new_tx_event_Inr_iff)

theorem new_tx_event_unreachable_witness:
  "new_tx_event (\<lambda>tx. [0xAB, 0x01]) () \<lparr>header = (Raw () :: (unit, nat, nat, nat) TxType)\<rparr> 42
     = Inl Unreachable"
  using new_tx_event_unreachable
    [of "\<lambda>tx. [0xAB, 0x01]" "()" "\<lparr>header = (Raw () :: (unit, nat, nat, nat) TxType)\<rparr>" 42]
  by simp

text \<open>C36: The \<^verbatim>\<open>height\<close> attribute of a transaction event reads back as the block
  height it was built from, so events built for different heights have different
  \<^verbatim>\<open>height\<close> attributes; the attribute has between one and twenty characters, all of
  them decimal digits.\<close>
theorem new_tx_event_height_roundtrip:
  assumes "new_tx_event hh rd tx h = Inr ev"
  shows "\<exists>s. get ev ''height'' = Some s \<and> read_u64 s = Some h \<and>
             1 \<le> length s \<and> length s \<le> 20 \<and> list_all is_digit s"
  using assms
  by (auto simp: new_tx_event_Inr_iff length_u64_to_string_le
      list_all_is_digit_u64_to_string Suc_le_eq)

theorem new_tx_event_height_roundtrip_witness:
  "\<exists>s. get \<lparr>event_type = Accepted, level = Tx, attributes = tx_attrs ''00'' 18446744073709551615\<rparr>
           ''height'' = Some s \<and>
       read_u64 s = Some 18446744073709551615 \<and> length s \<le> 20"
proof -
  let ?tx = "\<lparr>header = (Wrapper () :: (unit, unit, unit, unit) TxType)\<rparr>"
  have "new_tx_event (\<lambda>tx. [0]) () ?tx 18446744073709551615 =
      Inr \<lparr>event_type = Accepted, level = Tx, attributes = tx_attrs ''00'' 18446744073709551615\<rparr>"
    by (simp add: new_tx_event_ok tx_event_type_def hash_eval)
  from new_tx_event_height_roundtrip [OF this] show ?thesis by blast
qed

text \<open>C37: The \<^verbatim>\<open>hash\<close> attribute of a transaction event reads back as the hash that
  was rendered; for a hash of 32 bytes it has 64 characters, all of them upper-case
  hexadecimal digits, and so is never empty.\<close>
theorem new_tx_event_hash_roundtrip:
  assumes "new_tx_event hh rd tx h = Inr ev" and "length (hh (hashed_tx rd tx)) = 32"
  shows "\<exists>s. get ev ''hash'' = Some s \<and> read_hash s = Some (hh (hashed_tx rd tx)) \<and>
             length s = 64 \<and> list_all is_upper_hex s"
  using assms by (auto simp: new_tx_event_Inr_iff list_all_is_upper_hex_hash)

theorem new_tx_event_hash_roundtrip_witness:
  "\<exists>s. get \<lparr>event_type = Applied, level = Tx,
            attributes = tx_attrs (hash_to_string (replicate 32 0x5A)) 7\<rparr> ''hash'' = Some s \<and>
       read_hash s = Some (replicate 32 0x5A) \<and> length s = 64"
proof -
  let ?tx = "\<lparr>header = (Protocol () :: (unit, unit, unit, unit) TxType)\<rparr>"
  let ?hh = "\<lambda>tx :: (unit, unit, unit, unit) Tx. replicate 32 (0x5A :: byte)"
  have "new_tx_event ?hh () ?tx 7 =
      Inr \<lparr>event_type = Applied, level = Tx,
           attributes = tx_attrs (hash_to_string (replicate 32 0x5A)) 7\<rparr>"
    by (simp add: new_tx_event_ok tx_event_type_def)
  moreover have "length (?hh (hashed_tx () ?tx)) = 32" by simp
  ultimately show ?thesis
    using new_tx_event_hash_roundtrip [of ?hh "()" ?tx 7] by auto
qed

text \<open>The event of a decrypted transaction does not depend on the decrypted
  header: its \<^verbatim>\<open>hash\<close> attribute is the rendered header hash of the transaction with
  the default raw header in place of its own.\<close>
lemma new_tx_event_decrypted_independent:
  "new_tx_event hh rd (update_header tx (Decrypted d)) h =
   new_tx_event hh rd (update_header tx (Decrypted d')) h \<and>
   (\<exists>ev. new_tx_event hh rd (update_header tx (Decrypted d)) h = Inr ev \<and>
         get ev ''hash'' = Some (hash_to_string (hh (update_header tx (Raw rd)))))"
  by (simp add: new_tx_event_ok tx_event_type_def)

text \<open>C10: The \<^verbatim>\<open>Accepted\<close> event of a wrapper transaction and the \<^verbatim>\<open>Applied\<close> event
  of the same transaction after decryption carry the same \<^verbatim>\<open>hash\<close> attribute exactly
  when the header hash of the transaction with the wrapper header collides with the
  header hash of the transaction with the default raw header: the applied hash is
  that of the raw header, not that of the wrapper. For a header hash without
  collisions the two attributes differ.\<close>
theorem wrapper_and_decrypted_hash_differ:
  assumes "new_tx_event hh rd (update_header tx (Wrapper w)) h = Inr ev"
    and "new_tx_event hh rd (update_header tx (Decrypted d)) h' = Inr ev'"
  shows "(get ev ''hash'' = get ev' ''hash'' \<longleftrightarrow>
            hh (update_header tx (Wrapper w)) = hh (update_header tx (Raw rd))) \<and>
         (inj hh \<longrightarrow> get ev ''hash'' \<noteq> get ev' ''hash'')"
proof -
  have ne: "update_header tx (Wrapper w) \<noteq> update_header tx (Raw rd)"
    by (metis header_update_header TxType.distinct(1))
  from assms have eq: "get ev ''hash'' = get ev' ''hash'' \<longleftrightarrow>
      hh (update_header tx (Wrapper w)) = hh (update_header tx (Raw rd))"
    by (auto simp: new_tx_event_Inr_iff inj_hash_to_string)
  with ne show ?thesis by (auto simp: inj_eq)
qed

theorem wrapper_and_decrypted_hash_differ_witness:
  "get \<lparr>event_type = Accepted, level = Tx, attributes = tx_attrs ''01'' 7\<rparr> ''hash'' \<noteq>
   get \<lparr>event_type = Applied, level = Tx, attributes = tx_attrs ''00'' 8\<rparr> ''hash''"
proof -
  let ?hh = "\<lambda>tx :: (unit, unit, unit, unit) Tx.
     case header tx of Raw _ \<Rightarrow> [0 :: byte] | Wrapper _ \<Rightarrow> [1]
     | Decrypted _ \<Rightarrow> [2] | Protocol _ \<Rightarrow> [3]"
  let ?tx = "\<lparr>header = (Raw () :: (unit, unit, unit, unit) TxType)\<rparr>"
  have inj: "inj ?hh"
    by (rule injI) (auto split: TxType.splits)
  have a: "new_tx_event ?hh () (update_header ?tx (Wrapper ())) 7 =
      Inr \<lparr>event_type = Accepted, level = Tx, attributes = tx_attrs ''01'' 7\<rparr>"
    by (simp add: new_tx_event_ok tx_event_type_def hash_eval)
  have b: "new_tx_event ?hh () (update_header ?tx (Decrypted ())) 8 =
      Inr \<lparr>event_type = Applied, level = Tx, attributes = tx_attrs ''00'' 8\<rparr>"
    by (simp add: new_tx_event_ok tx_event_type_def hash_eval)
  from wrapper_and_decrypted_hash_differ [OF a b, THEN conjunct2] inj show ?thesis
    by (rule mp)
qed

end
