(* ===== verification/Serde_Json.thy ===== *)
theory Serde_Json
  imports Events_Prelude Display_Fmt
begin

text \<open>
  The part of the \<^verbatim>\<open>serde_json\<close> library that the attribute parser of \<^verbatim>\<open>events.rs\<close>
  calls. The library is not part of the modelled file; it is modelled from its
  documented behaviour.

  \<^item> \<open>json\<close> is \<^verbatim>\<open>serde_json::Value\<close>. An object is an association list in the
    iteration order of the library's map, and a lookup in it is \<open>map_of\<close>. Numbers are
    integers: the floating-point numbers of JSON are not modelled, they can occur in
    the parser's input only inside the text of an error message.
  \<^item> \<open>json_get\<close> is \<^verbatim>\<open>Value::get\<close> with a string index: the member of an object, and
    \<open>None\<close> for a missing member and for every value that is not an object.
  \<^item> \<open>from_value_vec\<close> and \<open>from_value_string\<close> are \<^verbatim>\<open>serde_json::from_value\<close> at the
    types \<^verbatim>\<open>Vec<Value>\<close> and \<^verbatim>\<open>String\<close>; \<open>None\<close> stands for the \<^verbatim>\<open>Err\<close> that the
    parser unwraps.
  \<^item> \<open>json_to_string\<close> is the compact \<^verbatim>\<open>serde_json::to_string\<close>, with the library's
    escaping of quotes, backslashes and control characters.
\<close>

section \<open>Values\<close>

datatype json =
    JNull
  | JBool bool
  | JNumber int
  | JString string
  | JArray "json list"
  | JObject "(string \<times> json) list"

section \<open>Access and deserialisation\<close>

fun json_get :: "json \<Rightarrow> string \<Rightarrow> json option" where
  "json_get (JObject m) k = map_of m k"
| "json_get _ k = None"

fun from_value_vec :: "json \<Rightarrow> json list option" where
  "from_value_vec (JArray xs) = Some xs"
| "from_value_vec _ = None"

fun from_value_string :: "json \<Rightarrow> string option" where
  "from_value_string (JString s) = Some s"
| "from_value_string _ = None"

section \<open>Serialisation\<close>

definition escape_char :: "char \<Rightarrow> string" where
  "escape_char c =
     (let n = (of_char c :: nat) in
      if n = 34 then [CHR 0x5C, CHR 0x22]
      else if n = 92 then [CHR 0x5C, CHR 0x5C]
      else if n = 8 then [CHR 0x5C, CHR ''b'']
      else if n = 12 then [CHR 0x5C, CHR ''f'']
      else if n = 10 then [CHR 0x5C, CHR ''n'']
      else if n = 13 then [CHR 0x5C, CHR ''r'']
      else if n = 9 then [CHR 0x5C, CHR ''t'']
      else if n < 32 then
        [CHR 0x5C, CHR ''u'', CHR ''0'', CHR ''0'',
         ''0123456789abcdef'' ! (n div 16), ''0123456789abcdef'' ! (n mod 16)]
      else [c])"

definition quote :: "string \<Rightarrow> string" where
  "quote s = CHR 0x22 # concat (map escape_char s) @ [CHR 0x22]"

fun intersperse :: "string \<Rightarrow> string list \<Rightarrow> string" where
  "intersperse sep [] = []"
| "intersperse sep [x] = x"
| "intersperse sep (x # y # ys) = x @ sep @ intersperse sep (y # ys)"

definition int_to_string :: "int \<Rightarrow> string" where
  "int_to_string i =
     (if i < 0 then CHR ''-'' # dec_digits (nat (- i)) else dec_digits (nat i))"

fun json_to_string :: "json \<Rightarrow> string" where
  "json_to_string JNull = ''null''"
| "json_to_string (JBool b) = (if b then ''true'' else ''false'')"
| "json_to_string (JNumber i) = int_to_string i"
| "json_to_string (JString s) = quote s"
| "json_to_string (JArray xs) =
     ''['' @ intersperse '','' (map json_to_string xs) @ '']''"
| "json_to_string (JObject m) =
     ''{'' @ intersperse '',''
        (map (\<lambda>(k, v). quote k @ '':'' @ json_to_string v) m) @ ''}''"

lemmas json_eval = quote_def escape_char_def int_to_string_def dec_digits_eval

section \<open>Lemmas\<close>

lemma json_get_Some_iff:
  "json_get j k = Some v \<longleftrightarrow> (\<exists>m. j = JObject m \<and> map_of m k = Some v)"
  by (cases j) simp_all

lemma json_get_None_iff:
  "json_get j k = None \<longleftrightarrow> (\<forall>m. j = JObject m \<longrightarrow> map_of m k = None)"
  by (cases j) simp_all

lemma from_value_vec_Some_iff [simp]: "from_value_vec j = Some xs \<longleftrightarrow> j = JArray xs"
  by (cases j) simp_all

lemma from_value_string_Some_iff [simp]: "from_value_string j = Some s \<longleftrightarrow> j = JString s"
  by (cases j) simp_all

lemma from_value_vec_None_iff: "from_value_vec j = None \<longleftrightarrow> (\<forall>xs. j \<noteq> JArray xs)"
  by (cases j) simp_all

lemma from_value_string_None_iff: "from_value_string j = None \<longleftrightarrow> (\<forall>s. j \<noteq> JString s)"
  by (cases j) simp_all

lemma quote_nonempty [simp]: "quote s \<noteq> []"
  by (simp add: quote_def)

lemma int_to_string_nonempty [simp]: "int_to_string i \<noteq> []"
  by (simp add: int_to_string_def)

lemma json_to_string_nonempty [simp]: "json_to_string j \<noteq> []"
  by (cases j) simp_all

end
