(* ===== verification/Event_Attributes.thy ===== *)
theory Event_Attributes
  imports Ledger_Event Serde_Json
begin

text \<open>
  The attribute parser of \<^verbatim>\<open>events.rs\<close>: the wrapper \<^verbatim>\<open>Attributes\<close>, the error type of
  the module and \<^verbatim>\<open>impl TryFrom<&serde_json::Value> for Attributes\<close>.

  \<^item> \<open>Attributes\<close> is the tuple struct around the hash map; \<open>get_attr\<close> and \<open>take_attr\<close>
    are its methods \<^verbatim>\<open>get\<close> and \<^verbatim>\<open>take\<close>, the latter returning the removed value
    together with the map that is left.
  \<^item> \<open>Error\<close> has the three variants of the source and \<open>error_to_string\<close> is the
    \<^verbatim>\<open>Display\<close> that \<^verbatim>\<open>thiserror\<close> derives from their messages.
  \<^item> \<open>try_from\<close> is the conversion. \<open>parse_attr\<close> is the body of its \<^verbatim>\<open>for\<close> loop and
    \<open>parse_attrs\<close> the loop, by recursion over the array, with the map under
    construction (\<^verbatim>\<open>attributes\<close> in the source) as its accumulator. Each \<^verbatim>\<open>?\<close> of the source is
    an \<open>Err\<close> failure that ends the conversion, each \<^verbatim>\<open>unwrap()\<close> of a failed
    deserialisation is a \<open>Panic\<close>. The arguments of \<^verbatim>\<open>insert\<close> are evaluated in the
    order of the source: the key is looked up and deserialised before the value is
    looked up.
  \<^item> \<open>pair_of\<close> and \<open>pairs_of\<close> say what a well-formed record and a well-formed array
    denote; they are the specification of the loop.

  The lemmas characterise each outcome of \<open>parse_attr\<close>, show that the loop
  distributes over concatenation of arrays and stops at the first failing record,
  that it builds the map of the pairs with later pairs overriding earlier ones, and
  that the result has distinct keys.
\<close>

section \<open>Data\<close>

datatype Attributes = Attributes (inner: attrs)

datatype Error =
    MissingAttributes
  | MissingKey string
  | MissingValue string

section \<open>Operations\<close>

definition get_attr :: "Attributes \<Rightarrow> string \<Rightarrow> string option" where
  "get_attr self key = map_of (inner self) key"

definition take_attr :: "Attributes \<Rightarrow> string \<Rightarrow> string option \<times> Attributes" where
  "take_attr self key =
     (map_of (inner self) key, Attributes (AList.delete key (inner self)))"

fun error_to_string :: "Error \<Rightarrow> string" where
  "error_to_string MissingAttributes =
     ''Json missing '' @ [CHR 0x60] @ ''attributes'' @ [CHR 0x60] @ '' field''"
| "error_to_string (MissingKey s) = ''Attributes missing key: '' @ s"
| "error_to_string (MissingValue s) = ''Attributes missing value: '' @ s"

definition parse_attr :: "json \<Rightarrow> attrs \<Rightarrow> Error failure + attrs" where
  "parse_attr attr acc =
     and_then (ok_or (json_get attr ''key'') (MissingKey (json_to_string attr)))
       (\<lambda>kj. and_then (unwrap_err (from_value_string kj))
         (\<lambda>k. and_then
            (ok_or (json_get attr ''value'') (MissingValue (json_to_string attr)))
            (\<lambda>vj. and_then (unwrap_err (from_value_string vj))
              (\<lambda>v. Inr (AList.update k v acc)))))"

fun parse_attrs :: "json list \<Rightarrow> attrs \<Rightarrow> Error failure + attrs" where
  "parse_attrs [] acc = Inr acc"
| "parse_attrs (attr # attrs) acc =
     and_then (parse_attr attr acc) (parse_attrs attrs)"

definition try_from :: "json \<Rightarrow> Error failure + Attributes" where
  "try_from json =
     and_then (ok_or (json_get json ''attributes'') MissingAttributes)
       (\<lambda>a. and_then (unwrap_err (from_value_vec a))
         (\<lambda>attrs. and_then (parse_attrs attrs [])
           (\<lambda>acc. Inr (Attributes acc))))"

section \<open>Specification of the loop\<close>

definition pair_of :: "json \<Rightarrow> (string \<times> string) option" where
  "pair_of attr =
     (case (json_get attr ''key'', json_get attr ''value'') of
        (Some (JString k), Some (JString v)) \<Rightarrow> Some (k, v)
      | _ \<Rightarrow> None)"

fun pairs_of :: "json list \<Rightarrow> (string \<times> string) list option" where
  "pairs_of [] = Some []"
| "pairs_of (attr # attrs) =
     (case pair_of attr of
        None \<Rightarrow> None
      | Some p \<Rightarrow> map_option ((#) p) (pairs_of attrs))"

definition insert_all :: "(string \<times> string) list \<Rightarrow> attrs \<Rightarrow> attrs" where
  "insert_all kvs acc = fold (\<lambda>p. AList.update (fst p) (snd p)) kvs acc"

definition wf_attributes :: "Attributes \<Rightarrow> bool" where
  "wf_attributes a = hm_inv (inner a)"

lemmas attributes_defs [event_defs] =
  get_attr_def take_attr_def try_from_def wf_attributes_def

section \<open>One record\<close>

lemma pair_of_Some_iff:
  "pair_of attr = Some (k, v) \<longleftrightarrow>
     json_get attr ''key'' = Some (JString k) \<and> json_get attr ''value'' = Some (JString v)"
  by (auto simp: pair_of_def split: option.splits json.splits)

lemma parse_attr_Inr_iff:
  "parse_attr attr acc = Inr m \<longleftrightarrow>
     (\<exists>k v. pair_of attr = Some (k, v) \<and> m = AList.update k v acc)"
  by (auto simp: parse_attr_def and_then_Inr_iff pair_of_Some_iff)

lemma parse_attr_pair: "pair_of attr = Some (k, v) \<Longrightarrow> parse_attr attr acc = Inr (AList.update k v acc)"
  by (simp add: parse_attr_Inr_iff)

lemma parse_attr_no_key:
  "json_get attr ''key'' = None \<Longrightarrow>
   parse_attr attr acc = Inl (Err (MissingKey (json_to_string attr)))"
  by (simp add: parse_attr_def)

lemma parse_attr_bad_key:
  "json_get attr ''key'' = Some kj \<Longrightarrow> from_value_string kj = None \<Longrightarrow>
   parse_attr attr acc = Inl (Panic UnwrapErr)"
  by (simp add: parse_attr_def)

lemma parse_attr_no_value:
  "json_get attr ''key'' = Some (JString k) \<Longrightarrow> json_get attr ''value'' = None \<Longrightarrow>
   parse_attr attr acc = Inl (Err (MissingValue (json_to_string attr)))"
  by (simp add: parse_attr_def)

lemma parse_attr_bad_value:
  "json_get attr ''key'' = Some (JString k) \<Longrightarrow> json_get attr ''value'' = Some vj \<Longrightarrow>
   from_value_string vj = None \<Longrightarrow> parse_attr attr acc = Inl (Panic UnwrapErr)"
  by (simp add: parse_attr_def)

lemmas parse_attr_failures =
  parse_attr_no_key parse_attr_bad_key parse_attr_no_value parse_attr_bad_value

lemma parse_attr_Inl_cases:
  assumes "parse_attr attr acc = Inl f"
  shows "f = Err (MissingKey (json_to_string attr)) \<and> json_get attr ''key'' = None \<or>
         f = Err (MissingValue (json_to_string attr)) \<and> json_get attr ''value'' = None \<and>
           (\<exists>k. json_get attr ''key'' = Some (JString k)) \<or>
         f = Panic UnwrapErr \<and> pair_of attr = None \<and>
           (\<exists>kj. json_get attr ''key'' = Some kj \<and>
             (from_value_string kj = None \<or>
              (\<exists>vj. json_get attr ''value'' = Some vj \<and> from_value_string vj = None)))"
proof (cases "json_get attr ''key''")
  case None
  with assms show ?thesis by (simp add: parse_attr_no_key)
next
  case (Some kj)
  show ?thesis
  proof (cases "from_value_string kj")
    case None
    with Some assms show ?thesis
      by (auto simp: parse_attr_bad_key pair_of_def split: json.splits)
  next
    case k: (Some k)
    then have kj: "kj = JString k" by simp
    show ?thesis
    proof (cases "json_get attr ''value''")
      case None
      with Some kj assms show ?thesis by (simp add: parse_attr_no_value)
    next
      case v: (Some vj)
      with Some kj assms have "from_value_string vj = None"
        by (cases "from_value_string vj") (auto simp: parse_attr_def)
      with Some kj v assms show ?thesis
        by (auto simp: parse_attr_bad_value pair_of_def split: json.splits)
    qed
  qed
qed

lemma parse_attr_Panic_iff:
  "parse_attr attr acc = Inl (Panic p) \<longleftrightarrow>
     p = UnwrapErr \<and>
     (\<exists>kj. json_get attr ''key'' = Some kj \<and>
        (from_value_string kj = None \<or>
         (\<exists>vj. json_get attr ''value'' = Some vj \<and> from_value_string vj = None)))"
proof
  assume "parse_attr attr acc = Inl (Panic p)"
  from parse_attr_Inl_cases [OF this] show
    "p = UnwrapErr \<and>
     (\<exists>kj. json_get attr ''key'' = Some kj \<and>
        (from_value_string kj = None \<or>
         (\<exists>vj. json_get attr ''value'' = Some vj \<and> from_value_string vj = None)))"
    by auto
next
  assume "p = UnwrapErr \<and>
     (\<exists>kj. json_get attr ''key'' = Some kj \<and>
        (from_value_string kj = None \<or>
         (\<exists>vj. json_get attr ''value'' = Some vj \<and> from_value_string vj = None)))"
  then obtain kj where p: "p = UnwrapErr" and kj: "json_get attr ''key'' = Some kj"
    and bad: "from_value_string kj = None \<or>
      (\<exists>vj. json_get attr ''value'' = Some vj \<and> from_value_string vj = None)"
    by blast
  show "parse_attr attr acc = Inl (Panic p)"
  proof (cases "from_value_string kj")
    case None
    with kj p show ?thesis by (simp add: parse_attr_bad_key)
  next
    case (Some k)
    with kj bad p show ?thesis by (auto simp: parse_attr_bad_value)
  qed
qed

lemma parse_attr_Inl_acc:
  "parse_attr attr acc = Inl f \<Longrightarrow> parse_attr attr acc' = Inl f"
  by (auto simp: parse_attr_def and_then_Inl_iff)

lemma parse_attr_Inl_iff_pair:
  "(\<exists>f. parse_attr attr acc = Inl f) \<longleftrightarrow> pair_of attr = None"
proof (cases "pair_of attr")
  case None
  then have "\<And>m. parse_attr attr acc \<noteq> Inr m" by (simp add: parse_attr_Inr_iff)
  with None show ?thesis by (cases "parse_attr attr acc") auto
next
  case (Some p)
  then show ?thesis by (cases p) (simp add: parse_attr_pair)
qed

section \<open>The loop\<close>

lemma parse_attrs_append:
  "parse_attrs (xs @ ys) acc = and_then (parse_attrs xs acc) (parse_attrs ys)"
proof (induction xs arbitrary: acc)
  case Nil
  show ?case by simp
next
  case (Cons x xs)
  show ?case by (cases "parse_attr x acc") (simp_all add: Cons.IH)
qed

lemma insert_all_simps [simp]:
  "insert_all [] acc = acc"
  "insert_all ((k, v) # kvs) acc = insert_all kvs (AList.update k v acc)"
  by (simp_all add: insert_all_def)

lemma insert_all_append [simp]:
  "insert_all (xs @ ys) acc = insert_all ys (insert_all xs acc)"
  by (simp add: insert_all_def)

lemma parse_attrs_pairs:
  "pairs_of items = Some kvs \<Longrightarrow> parse_attrs items acc = Inr (insert_all kvs acc)"
proof (induction items arbitrary: kvs acc)
  case Nil
  then show ?case by simp
next
  case (Cons a items)
  from Cons.prems obtain k v kvs' where
    a: "pair_of a = Some (k, v)" and rest: "pairs_of items = Some kvs'"
    and kvs: "kvs = (k, v) # kvs'"
    by (auto split: option.splits)
  from rest have "parse_attrs items (AList.update k v acc) =
      Inr (insert_all kvs' (AList.update k v acc))"
    by (rule Cons.IH)
  with a kvs show ?case by (simp add: parse_attr_pair)
qed

lemma parse_attrs_Inr_pairs:
  "parse_attrs items acc = Inr m \<Longrightarrow> \<exists>kvs. pairs_of items = Some kvs"
proof (induction items arbitrary: acc)
  case Nil
  show ?case by simp
next
  case (Cons a items)
  from Cons.prems obtain m' where a: "parse_attr a acc = Inr m'"
    and rest: "parse_attrs items m' = Inr m"
    by (auto simp: and_then_Inr_iff)
  from a obtain k v where "pair_of a = Some (k, v)"
    by (auto simp: parse_attr_Inr_iff)
  moreover from rest obtain kvs where "pairs_of items = Some kvs"
    using Cons.IH by blast
  ultimately show ?case by simp
qed

lemma parse_attrs_Inr_iff:
  "parse_attrs items acc = Inr m \<longleftrightarrow>
     (\<exists>kvs. pairs_of items = Some kvs \<and> m = insert_all kvs acc)"
  using parse_attrs_Inr_pairs [of items acc m] by (auto simp: parse_attrs_pairs)

lemma parse_attrs_first_failure:
  assumes "pairs_of good = Some kvs" and "parse_attr bad [] = Inl f"
  shows "parse_attrs (good @ bad # rest) acc = Inl f"
proof -
  from assms(2) have "parse_attr bad (insert_all kvs acc) = Inl f"
    by (rule parse_attr_Inl_acc)
  with assms(1) show ?thesis
    by (simp add: parse_attrs_append parse_attrs_pairs)
qed

lemma pairs_of_None_split:
  "pairs_of items = None \<Longrightarrow>
   \<exists>good bad rest kvs. items = good @ bad # rest \<and> pairs_of good = Some kvs \<and>
     pair_of bad = None"
proof (induction items)
  case Nil
  then show ?case by simp
next
  case (Cons a items)
  show ?case
  proof (cases "pair_of a")
    case None
    then have "a # items = [] @ a # items \<and> pairs_of [] = Some [] \<and> pair_of a = None"
      by simp
    then show ?thesis by blast
  next
    case (Some p)
    with Cons.prems have "pairs_of items = None" by (simp split: option.splits)
    then obtain good bad rest kvs where
      "items = good @ bad # rest" "pairs_of good = Some kvs" "pair_of bad = None"
      using Cons.IH by blast
    with Some have "a # items = (a # good) @ bad # rest \<and>
        pairs_of (a # good) = Some (p # kvs) \<and> pair_of bad = None"
      by simp
    then show ?thesis by blast
  qed
qed

lemma parse_attrs_Inl_split:
  assumes "parse_attrs items acc = Inl f"
  shows "\<exists>good bad rest kvs. items = good @ bad # rest \<and> pairs_of good = Some kvs \<and>
           parse_attr bad [] = Inl f"
proof -
  from assms have "pairs_of items = None"
    by (cases "pairs_of items") (auto simp: parse_attrs_pairs)
  then obtain good bad rest kvs where
    split: "items = good @ bad # rest" "pairs_of good = Some kvs" and "pair_of bad = None"
    using pairs_of_None_split by blast
  then obtain g where g: "parse_attr bad [] = Inl g"
    using parse_attr_Inl_iff_pair [of bad "[]"] by blast
  with split have "parse_attrs items acc = Inl g"
    by (simp add: parse_attrs_first_failure)
  with assms g split show ?thesis by auto
qed

lemma parse_attrs_Inl_iff:
  "parse_attrs items [] = Inl f \<longleftrightarrow>
     (\<exists>good bad rest kvs. items = good @ bad # rest \<and> pairs_of good = Some kvs \<and>
        parse_attr bad [] = Inl f)"
proof
  assume "parse_attrs items [] = Inl f"
  then show "\<exists>good bad rest kvs. items = good @ bad # rest \<and> pairs_of good = Some kvs \<and>
      parse_attr bad [] = Inl f"
    by (rule parse_attrs_Inl_split)
qed (auto simp: parse_attrs_first_failure)

section \<open>The map that is built\<close>

lemma map_of_insert_all:
  "map_of (insert_all kvs acc) = map_of acc ++ map_of (rev kvs)"
proof (induction kvs arbitrary: acc)
  case Nil
  show ?case by simp
next
  case (Cons p kvs)
  obtain k v where p: "p = (k, v)" by (cases p)
  have "map_of (insert_all kvs (AList.update k v acc)) =
      map_of (AList.update k v acc) ++ map_of (rev kvs)"
    by (rule Cons.IH)
  also have "\<dots> = map_of acc ++ map_of (rev kvs @ [(k, v)])"
    by (simp add: update_conv' map_add_upd_left fun_eq_iff map_add_def
        split: option.splits)
  finally show ?case by (simp add: p)
qed

lemma hm_inv_insert_all [simp, hm_invs]: "hm_inv acc \<Longrightarrow> hm_inv (insert_all kvs acc)"
  by (induction kvs arbitrary: acc) auto

lemma hm_keys_insert_all [simp]:
  "hm_keys (insert_all kvs acc) = hm_keys acc \<union> fst ` set kvs"
proof (induction kvs arbitrary: acc)
  case Nil
  show ?case by simp
next
  case (Cons p kvs)
  obtain k v where p: "p = (k, v)" by (cases p)
  show ?case by (simp add: p Cons.IH)
qed

lemma insert_all_distinct:
  "distinct (map fst kvs) \<Longrightarrow> map_of (insert_all kvs []) = map_of kvs"
  by (simp add: map_of_insert_all map_of_rev_inv hm_inv_def)

section \<open>The conversion\<close>

lemma try_from_no_attributes:
  "json_get j ''attributes'' = None \<Longrightarrow> try_from j = Inl (Err MissingAttributes)"
  by (simp add: try_from_def)

lemma try_from_not_array:
  "json_get j ''attributes'' = Some a \<Longrightarrow> from_value_vec a = None \<Longrightarrow>
   try_from j = Inl (Panic UnwrapErr)"
  by (simp add: try_from_def)

lemma try_from_array:
  "json_get j ''attributes'' = Some (JArray items) \<Longrightarrow>
   try_from j = and_then (parse_attrs items []) (\<lambda>m. Inr (Attributes m))"
  by (simp add: try_from_def)

lemma try_from_Inr_iff:
  "try_from j = Inr a \<longleftrightarrow>
     (\<exists>items kvs. json_get j ''attributes'' = Some (JArray items) \<and>
        pairs_of items = Some kvs \<and> a = Attributes (insert_all kvs []))"
  by (auto simp: try_from_def and_then_Inr_iff parse_attrs_Inr_iff)

lemma parse_attrs_not_MissingAttributes:
  "parse_attrs items acc \<noteq> Inl (Err MissingAttributes)"
proof
  assume "parse_attrs items acc = Inl (Err MissingAttributes)"
  then show False
  proof (induction items arbitrary: acc)
    case Nil
    then show ?case by simp
  next
    case (Cons a items)
    then show ?case
      by (auto simp: and_then_Inl_iff dest: parse_attr_Inl_cases)
  qed
qed

section \<open>Lookup and removal\<close>

lemma get_attr_take_attr_same [simp]: "get_attr (snd (take_attr a k)) k = None"
  by (simp add: get_attr_def take_attr_def)

lemma get_attr_take_attr_other [simp]:
  "k' \<noteq> k \<Longrightarrow> get_attr (snd (take_attr a k)) k' = get_attr a k'"
  by (simp add: get_attr_def take_attr_def)

lemma fst_take_attr [simp]: "fst (take_attr a k) = get_attr a k"
  by (simp add: get_attr_def take_attr_def)

lemma wf_attributes_take_attr [simp, hm_invs]:
  "wf_attributes a \<Longrightarrow> wf_attributes (snd (take_attr a k))"
  by (simp add: wf_attributes_def take_attr_def)

lemma inner_take_attr: "inner (snd (take_attr a k)) = AList.delete k (inner a)"
  by (simp add: take_attr_def)

section \<open>Properties of the parser\<close>

text \<open>C7: The conversion returns the error \<^verbatim>\<open>MissingAttributes\<close> exactly when the
  input has no member \<^verbatim>\<open>attributes\<close>, which includes every input that is not a JSON
  object; no later step of the conversion reports this error.\<close>
theorem try_from_missing_attributes:
  "try_from j = Inl (Err MissingAttributes) \<longleftrightarrow> json_get j ''attributes'' = None"
proof
  assume "try_from j = Inl (Err MissingAttributes)"
  then show "json_get j ''attributes'' = None"
    by (auto simp: try_from_def and_then_Inl_iff parse_attrs_not_MissingAttributes)
next
  assume "json_get j ''attributes'' = None"
  then show "try_from j = Inl (Err MissingAttributes)"
    by (rule try_from_no_attributes)
qed

text \<open>C3: When \<^verbatim>\<open>attributes\<close> is an array whose records all have a string \<^verbatim>\<open>key\<close>
  and a string \<^verbatim>\<open>value\<close>, the conversion succeeds and the map it returns holds, for
  every key of a record, the value of the last record with that key, and nothing
  else; its keys are distinct.\<close>
theorem try_from_last_write_wins:
  assumes "json_get j ''attributes'' = Some (JArray items)"
    and "pairs_of items = Some kvs"
  shows "\<exists>a. try_from j = Inr a \<and> (\<forall>k. get_attr a k = map_of (rev kvs) k) \<and>
             hm_keys (inner a) = fst ` set kvs \<and> wf_attributes a"
  using assms
  by (simp add: try_from_array parse_attrs_pairs get_attr_def map_of_insert_all
      wf_attributes_def)

theorem try_from_last_write_wins_witness:
  "\<exists>a. try_from (JObject [(''attributes'', JArray
          [JObject [(''key'', JString ''k''), (''value'', JString ''1'')],
           JObject [(''key'', JString ''k''), (''value'', JString ''2'')]])]) = Inr a \<and>
       get_attr a ''k'' = Some ''2''"
proof -
  let ?items = "[JObject [(''key'', JString ''k''), (''value'', JString ''1'')],
                 JObject [(''key'', JString ''k''), (''value'', JString ''2'')]]"
  let ?j = "JObject [(''attributes'', JArray ?items)]"
  have "json_get ?j ''attributes'' = Some (JArray ?items)" by simp
  moreover have "pairs_of ?items = Some [(''k'', ''1''), (''k'', ''2'')]"
    by (simp add: pair_of_def)
  ultimately obtain a where "try_from ?j = Inr a"
    "\<forall>k. get_attr a k = map_of (rev [(''k'', ''1''), (''k'', ''2'')]) k"
    using try_from_last_write_wins by blast
  then show ?thesis by auto
qed

text \<open>C6: The conversion stops at the first record that is not well formed: if the
  records before it are well formed and it has no \<^verbatim>\<open>key\<close>, the result is
  \<^verbatim>\<open>MissingKey\<close> with the serialised record as context; if it has a string \<^verbatim>\<open>key\<close> and
  no \<^verbatim>\<open>value\<close>, the result is \<^verbatim>\<open>MissingValue\<close> with the serialised record; whatever
  follows the record is not looked at.\<close>
theorem try_from_first_offender:
  assumes "json_get j ''attributes'' = Some (JArray (good @ bad # rest))"
    and "pairs_of good = Some kvs"
  shows "(json_get bad ''key'' = None \<longrightarrow>
            try_from j = Inl (Err (MissingKey (json_to_string bad)))) \<and>
         ((\<exists>k. json_get bad ''key'' = Some (JString k)) \<and> json_get bad ''value'' = None \<longrightarrow>
            try_from j = Inl (Err (MissingValue (json_to_string bad))))"
  using assms
  by (auto simp: try_from_array parse_attrs_first_failure parse_attr_failures)

theorem try_from_first_offender_witness:
  "try_from (JObject [(''attributes'', JArray
       [JObject [(''key'', JString ''a''), (''value'', JString ''1'')],
        JObject [(''key'', JString ''b'')],
        JNull])])
     = Inl (Err (MissingValue (json_to_string (JObject [(''key'', JString ''b'')]))))"
proof -
  let ?good = "[JObject [(''key'', JString ''a''), (''value'', JString ''1'')]]"
  let ?bad = "JObject [(''key'', JString ''b'')]"
  let ?j = "JObject [(''attributes'', JArray (?good @ ?bad # [JNull]))]"
  have "json_get ?j ''attributes'' = Some (JArray (?good @ ?bad # [JNull]))" by simp
  moreover have "pairs_of ?good = Some [(''a'', ''1'')]" by (simp add: pair_of_def)
  ultimately have "(\<exists>k. json_get ?bad ''key'' = Some (JString k)) \<and>
      json_get ?bad ''value'' = None \<longrightarrow>
      try_from ?j = Inl (Err (MissingValue (json_to_string ?bad)))"
    using try_from_first_offender by blast
  then show ?thesis by simp
qed

text \<open>C9: The conversion panics, instead of returning an error, exactly on ill-typed
  input: when \<^verbatim>\<open>attributes\<close> is present but not an array, and when the first record
  that is not well formed has a \<^verbatim>\<open>key\<close> that is not a string, or a \<^verbatim>\<open>value\<close> that is
  present and not a string. The panic is always the failed \<^verbatim>\<open>unwrap()\<close>; a key that is
  not a string panics even if the record also lacks its value.\<close>
theorem try_from_panics:
  assumes "json_get j ''attributes'' = Some a"
  shows "try_from j = Inl (Panic p) \<longleftrightarrow>
           p = UnwrapErr \<and>
           ((\<forall>items. a \<noteq> JArray items) \<or>
            (\<exists>good bad rest kvs kj.
               a = JArray (good @ bad # rest) \<and> pairs_of good = Some kvs \<and>
               json_get bad ''key'' = Some kj \<and>
               ((\<forall>s. kj \<noteq> JString s) \<or>
                (\<exists>vj. json_get bad ''value'' = Some vj \<and> (\<forall>s. vj \<noteq> JString s)))))"
proof (cases "from_value_vec a")
  case None
  with assms show ?thesis
    by (auto simp: try_from_not_array from_value_vec_None_iff)
next
  case (Some items)
  then have a: "a = JArray items" by simp
  with assms have "try_from j = Inl (Panic p) \<longleftrightarrow> parse_attrs items [] = Inl (Panic p)"
    by (simp add: try_from_array and_then_Inl_iff)
  then show ?thesis
    unfolding parse_attrs_Inl_iff parse_attr_Panic_iff from_value_string_None_iff a
    by blast
qed

theorem try_from_panics_witness:
  "try_from (JObject [(''attributes'', JNumber 5)]) = Inl (Panic UnwrapErr) \<and>
   try_from (JObject [(''attributes'', JArray [JObject [(''key'', JNumber 1)]])])
     = Inl (Panic UnwrapErr) \<and>
   try_from (JObject [(''attributes'',
       JArray [JObject [(''key'', JString ''k''), (''value'', JNull)]])])
     = Inl (Panic UnwrapErr) \<and>
   try_from (JObject [(''attributes'', JArray [JObject [(''key'', JString ''k'')]])])
     \<noteq> Inl (Panic UnwrapErr)"
proof -
  let ?j = "JObject [(''attributes'', JNumber 5)]"
  let ?bk = "JObject [(''key'', JNumber 1)]"
  let ?bv = "JObject [(''key'', JString ''k''), (''value'', JNull)]"
  let ?nv = "JObject [(''key'', JString ''k'')]"
  have "json_get ?j ''attributes'' = Some (JNumber 5)" by simp
  from try_from_panics [OF this, of UnwrapErr]
  have 1: "try_from ?j = Inl (Panic UnwrapErr)" by simp
  have k: "\<And>b. json_get (JObject [(''attributes'', JArray ([] @ b # []))]) ''attributes''
      = Some (JArray ([] @ b # []))" by simp
  from try_from_panics [OF k [of ?bk], of UnwrapErr]
  have 2: "try_from (JObject [(''attributes'', JArray [?bk])]) = Inl (Panic UnwrapErr)"
    by (simp add: Cons_eq_append_conv)
  from try_from_panics [OF k [of ?bv], of UnwrapErr]
  have 3: "try_from (JObject [(''attributes'', JArray [?bv])]) = Inl (Panic UnwrapErr)"
    by (simp add: Cons_eq_append_conv)
  from try_from_panics [OF k [of ?nv], of UnwrapErr]
  have 4: "try_from (JObject [(''attributes'', JArray [?nv])]) \<noteq> Inl (Panic UnwrapErr)"
    by (simp add: Cons_eq_append_conv)
  from 1 2 3 4 show ?thesis by simp
qed

text \<open>C26: Error reports are sound: a \<^verbatim>\<open>MissingKey\<close> error carries the serialisation
  of a record of the \<^verbatim>\<open>attributes\<close> array that has no \<^verbatim>\<open>key\<close>, a \<^verbatim>\<open>MissingValue\<close> error
  that of a record with a string \<^verbatim>\<open>key\<close> and no \<^verbatim>\<open>value\<close>, and in both cases every
  record before it is well formed.\<close>
theorem try_from_error_sound:
  assumes "try_from j = Inl (Err e)" and "e \<noteq> MissingAttributes"
  shows "\<exists>good bad rest kvs.
           json_get j ''attributes'' = Some (JArray (good @ bad # rest)) \<and>
           pairs_of good = Some kvs \<and>
           (e = MissingKey (json_to_string bad) \<and> json_get bad ''key'' = None \<or>
            e = MissingValue (json_to_string bad) \<and> json_get bad ''value'' = None \<and>
              (\<exists>k. json_get bad ''key'' = Some (JString k)))"
proof -
  from assms obtain items where
    arr: "json_get j ''attributes'' = Some (JArray items)"
    and "parse_attrs items [] = Inl (Err e)"
    by (auto simp: try_from_def and_then_Inl_iff)
  then obtain good bad rest kvs where
    split: "items = good @ bad # rest" "pairs_of good = Some kvs"
    and bad: "parse_attr bad [] = Inl (Err e)"
    using parse_attrs_Inl_split by blast
  from parse_attr_Inl_cases [OF bad] split arr show ?thesis by auto
qed

theorem try_from_error_sound_witness:
  "\<exists>good bad rest kvs.
     json_get (JObject [(''attributes'', JArray [JObject [(''value'', JString ''v'')]])])
       ''attributes'' = Some (JArray (good @ bad # rest)) \<and>
     pairs_of good = Some kvs \<and> json_get bad ''key'' = None"
proof -
  let ?bad = "JObject [(''value'', JString ''v'')]"
  let ?j = "JObject [(''attributes'', JArray [?bad])]"
  have "try_from ?j = Inl (Err (MissingKey (json_to_string ?bad)))"
    by (simp add: try_from_def parse_attr_def)
  from try_from_error_sound [OF this] show ?thesis by auto
qed

text \<open>C27: \<^verbatim>\<open>take\<close> returns the value that \<^verbatim>\<open>get\<close> would return and removes the key:
  afterwards \<^verbatim>\<open>get\<close> and a second \<^verbatim>\<open>take\<close> of the key return nothing, every other key
  is untouched, and the keys stay distinct.\<close>
theorem take_attr_consumes:
  assumes "wf_attributes a"
  shows "fst (take_attr a k) = get_attr a k \<and>
         get_attr (snd (take_attr a k)) k = None \<and>
         fst (take_attr (snd (take_attr a k)) k) = None \<and>
         (\<forall>k'. k' \<noteq> k \<longrightarrow> get_attr (snd (take_attr a k)) k' = get_attr a k') \<and>
         wf_attributes (snd (take_attr a k)) \<and>
         hm_keys (inner (snd (take_attr a k))) = hm_keys (inner a) - {k}"
  using assms by (simp add: inner_take_attr)

theorem take_attr_consumes_witness:
  "fst (take_attr (Attributes [(''hash'', ''AB''), (''log'', [])]) ''hash'') = Some ''AB'' \<and>
   get_attr (snd (take_attr (Attributes [(''hash'', ''AB''), (''log'', [])]) ''hash'')) ''hash''
     = None \<and>
   get_attr (snd (take_attr (Attributes [(''hash'', ''AB''), (''log'', [])]) ''hash'')) ''log''
     = Some []"
proof -
  let ?a = "Attributes [(''hash'', ''AB''), (''log'', [])]"
  have "wf_attributes ?a" by (simp add: wf_attributes_def)
  from take_attr_consumes [OF this, of "''hash''"] show ?thesis
    by (simp add: get_attr_def)
qed

text \<open>The messages of the parser's errors determine the error: two errors have
  the same message exactly when they are the same error with the same context.\<close>
lemma error_to_string_inj:
  "error_to_string a = error_to_string b \<longleftrightarrow> a = b"
  by (cases a; cases b) auto

end
