(* ===== verification/Event_Conversions.thy ===== *)
theory Event_Conversions
  imports Ledger_Event Event_Attributes
begin

text \<open>
  The three \<^verbatim>\<open>From\<close> conversions of \<^verbatim>\<open>events.rs\<close> and the payload in which a wire event
  travels to the attribute parser.

  \<^item> \<open>IbcEvent\<close> and \<open>ProposalEvent\<close> are the effect records of the IBC and governance
    modules, \<open>EventAttribute\<close> and \<open>AbciEvent\<close> the attribute and event types of the
    consensus engine's protocol. They are declared outside the modelled file; the
    records have the fields the conversions read and write, with a prefix where the
    name of a field is already taken by \<open>Event\<close>.
  \<^item> \<open>from_ibc_event\<close> is \<^verbatim>\<open>impl From<IbcEvent> for Event\<close>, \<open>from_proposal_event\<close> is
    \<^verbatim>\<open>impl From<ProposalEvent> for Event\<close> and \<open>from_event\<close> is
    \<^verbatim>\<open>impl From<Event> for tendermint_proto::abci::Event\<close>. The latter walks the
    attribute map in its iteration order, which is the order of the association list.
  \<^item> \<open>wire_pairs\<close> reads the key-value pairs back from a wire event; it is the
    specification against which \<open>from_event\<close> is stated.
  \<^item> \<open>attr_json\<close> and \<open>abci_event_json\<close> are the JSON shape in which a wire event
    reaches a subscriber (\<^verbatim>\<open>{type, attributes: [{key, value, index}]}\<close>), the input of
    the attribute parser of \<^verbatim>\<open>Event_Attributes\<close>. The shape is the one the
    specification gives; the transport that produces it is outside the file.

  The lemmas give the fields of each conversion and what the parser builds from the
  payload of a wire event. The properties are the round trip of an event over the
  wire, the postconditions of the conversions, and what the wire event forgets.
\<close>

section \<open>Data of the neighbouring modules\<close>

record IbcEvent =
  ibc_event_type :: string
  ibc_attributes :: attrs

record ProposalEvent =
  proposal_event_type :: string
  proposal_attributes :: attrs

record EventAttribute =
  attr_key :: string
  attr_value :: string
  attr_index :: bool

record AbciEvent =
  abci_type :: string
  abci_attributes :: "EventAttribute list"

section \<open>Conversions\<close>

definition from_ibc_event :: "IbcEvent \<Rightarrow> Event" where
  "from_ibc_event ibc_event =
     \<lparr>event_type = Ibc (ibc_event_type ibc_event), level = Tx,
      attributes = ibc_attributes ibc_event\<rparr>"

definition from_proposal_event :: "ProposalEvent \<Rightarrow> Event" where
  "from_proposal_event proposal_event =
     \<lparr>event_type = Proposal, level = Block,
      attributes = proposal_attributes proposal_event\<rparr>"

definition from_event :: "Event \<Rightarrow> AbciEvent" where
  "from_event event =
     \<lparr>abci_type = fmt (event_type event),
      abci_attributes =
        map (\<lambda>(key, value). \<lparr>attr_key = key, attr_value = value, attr_index = True\<rparr>)
          (attributes event)\<rparr>"

section \<open>Specification\<close>

definition wire_pairs :: "AbciEvent \<Rightarrow> (string \<times> string) list" where
  "wire_pairs w = map (\<lambda>a. (attr_key a, attr_value a)) (abci_attributes w)"

section \<open>The JSON payload of a wire event\<close>

definition attr_json :: "EventAttribute \<Rightarrow> json" where
  "attr_json a =
     JObject [(''index'', JBool (attr_index a)), (''key'', JString (attr_key a)),
              (''value'', JString (attr_value a))]"

definition abci_event_json :: "AbciEvent \<Rightarrow> json" where
  "abci_event_json w =
     JObject [(''attributes'', JArray (map attr_json (abci_attributes w))),
              (''type'', JString (abci_type w))]"

lemmas conversion_defs [event_defs] =
  from_ibc_event_def from_proposal_event_def from_event_def wire_pairs_def

section \<open>Lemmas\<close>

lemma from_ibc_event_simps [simp]:
  "event_type (from_ibc_event i) = Ibc (ibc_event_type i)"
  "level (from_ibc_event i) = Tx"
  "attributes (from_ibc_event i) = ibc_attributes i"
  by (simp_all add: from_ibc_event_def)

lemma from_proposal_event_simps [simp]:
  "event_type (from_proposal_event p) = Proposal"
  "level (from_proposal_event p) = Block"
  "attributes (from_proposal_event p) = proposal_attributes p"
  by (simp_all add: from_proposal_event_def)

lemma abci_type_from_event [simp]: "abci_type (from_event e) = fmt (event_type e)"
  by (simp add: from_event_def)

lemma wire_pairs_from_event [simp]: "wire_pairs (from_event e) = attributes e"
  by (simp add: wire_pairs_def from_event_def comp_def case_prod_unfold)

lemma length_abci_attributes [simp]:
  "length (abci_attributes (from_event e)) = length (attributes e)"
  by (simp add: from_event_def)

lemma attr_index_from_event:
  "a \<in> set (abci_attributes (from_event e)) \<Longrightarrow> attr_index a"
  by (auto simp: from_event_def)

lemma wf_event_from_ibc_event [simp]: "wf_event (from_ibc_event i) \<longleftrightarrow> hm_inv (ibc_attributes i)"
  by (simp add: wf_event_def)

lemma wf_event_from_proposal_event [simp]:
  "wf_event (from_proposal_event p) \<longleftrightarrow> hm_inv (proposal_attributes p)"
  by (simp add: wf_event_def)

section \<open>Lemmas on the payload\<close>

lemma pair_of_attr_json [simp]: "pair_of (attr_json a) = Some (attr_key a, attr_value a)"
  by (simp add: pair_of_def attr_json_def)

lemma pairs_of_attr_json [simp]:
  "pairs_of (map attr_json as) = Some (map (\<lambda>a. (attr_key a, attr_value a)) as)"
  by (induction as) simp_all

lemma json_get_abci_event_json [simp]:
  "json_get (abci_event_json w) ''attributes'' =
     Some (JArray (map attr_json (abci_attributes w)))"
  by (simp add: abci_event_json_def)

lemma try_from_abci_event_json:
  "try_from (abci_event_json w) = Inr (Attributes (insert_all (wire_pairs w) []))"
  by (simp add: try_from_Inr_iff wire_pairs_def)

lemma insert_all_agrees:
  assumes "hm_inv xs" and "hm_inv ps" and "map_of ps = map_of xs"
  shows "map_of (insert_all ps []) = map_of xs"
    and "hm_keys (insert_all ps []) = hm_keys xs"
    and "length (insert_all ps []) = length xs"
proof -
  from assms(2,3) show eq: "map_of (insert_all ps []) = map_of xs"
    by (simp add: insert_all_distinct hm_inv_def)
  then show "hm_keys (insert_all ps []) = hm_keys xs" by (simp only: hm_keys_dom)
  have "hm_inv (insert_all ps [])" by simp
  from this assms(1) eq show "length (insert_all ps []) = length xs" by (rule hm_same_length)
qed

section \<open>Properties of the conversions\<close>

text \<open>C1: Round trip over the wire: an event with distinct attribute keys, converted
  to a wire event, rendered as the JSON payload of a subscription response and
  parsed by the attribute parser, gives back the attribute map of the event: the
  same value for every key, the same keys and the same number of entries.\<close>
theorem wire_roundtrip:
  assumes "wf_event e"
  shows "\<exists>a. try_from (abci_event_json (from_event e)) = Inr a \<and>
             (\<forall>k. get_attr a k = get e k) \<and>
             hm_keys (inner a) = hm_keys (attributes e) \<and>
             length (inner a) = length (attributes e) \<and>
             wf_attributes a"
proof -
  from assms have inv: "hm_inv (attributes e)" by (simp add: wf_event_def)
  from insert_all_agrees [OF inv inv refl] show ?thesis
    by (simp add: try_from_abci_event_json get_attr_def get_def wf_attributes_def)
qed

theorem wire_roundtrip_witness:
  "\<exists>a. try_from (abci_event_json (from_event
          \<lparr>event_type = Proposal, level = Block,
           attributes = [(''proposal_id'', ''7''), (''passed'', ''true'')]\<rparr>)) = Inr a \<and>
       get_attr a ''proposal_id'' = Some ''7'' \<and> get_attr a ''passed'' = Some ''true'' \<and>
       length (inner a) = 2"
proof -
  let ?e = "\<lparr>event_type = Proposal, level = Block,
             attributes = [(''proposal_id'', ''7''), (''passed'', ''true'')]\<rparr>"
  have "wf_event ?e" by (simp add: wf_event_def)
  from wire_roundtrip [OF this] obtain a where
    "try_from (abci_event_json (from_event ?e)) = Inr a" "\<forall>k. get_attr a k = get ?e k"
    "length (inner a) = length (attributes ?e)"
    by blast
  then show ?thesis by (auto simp: get_def)
qed

text \<open>C24: The inbound conversions are the identity on the payload. The event of an
  IBC effect has type \<^verbatim>\<open>Ibc\<close> of the effect's own type string, level \<^verbatim>\<open>Tx\<close> and the
  effect's attribute map unchanged, so two effects convert to the same event only if
  they are equal. The event of a proposal effect has type \<^verbatim>\<open>Proposal\<close>, level \<^verbatim>\<open>Block\<close>
  and the effect's attribute map unchanged; the effect's own type string is dropped,
  so two effects convert to the same event exactly when their attribute maps are
  equal.\<close>
theorem inbound_conversions_identity:
  "event_type (from_ibc_event i) = Ibc (ibc_event_type i) \<and>
   level (from_ibc_event i) = Tx \<and>
   attributes (from_ibc_event i) = ibc_attributes i \<and>
   (from_ibc_event i = from_ibc_event i' \<longleftrightarrow> i = i') \<and>
   event_type (from_proposal_event p) = Proposal \<and>
   level (from_proposal_event p) = Block \<and>
   attributes (from_proposal_event p) = proposal_attributes p \<and>
   (from_proposal_event p = from_proposal_event p' \<longleftrightarrow>
      proposal_attributes p = proposal_attributes p')"
  by (auto simp: from_ibc_event_def from_proposal_event_def)

text \<open>C23: The wire event of an event has the rendering of the event type as its
  type, and one attribute for each entry of the attribute map, with that entry's key
  and value and with the index flag set; nothing else is in it.\<close>
theorem from_event_wire:
  "abci_type (from_event e) = fmt (event_type e) \<and>
   length (abci_attributes (from_event e)) = length (attributes e) \<and>
   list_all attr_index (abci_attributes (from_event e)) \<and>
   set (wire_pairs (from_event e)) = set (attributes e) \<and>
   map_of (wire_pairs (from_event e)) = map_of (attributes e)"
  by (simp add: list_all_iff attr_index_from_event)

theorem from_event_wire_witness:
  "abci_type (from_event \<lparr>event_type = Ibc ''transfer'', level = Tx,
      attributes = [(''a'', ''1''), (''b'', ''2'')]\<rparr>) = ''transfer'' \<and>
   list_all attr_index (abci_attributes (from_event \<lparr>event_type = Ibc ''transfer'', level = Tx,
      attributes = [(''a'', ''1''), (''b'', ''2'')]\<rparr>)) \<and>
   set (wire_pairs (from_event \<lparr>event_type = Ibc ''transfer'', level = Tx,
      attributes = [(''a'', ''1''), (''b'', ''2'')]\<rparr>)) = {(''a'', ''1''), (''b'', ''2'')}"
  using from_event_wire
    [of "\<lparr>event_type = Ibc ''transfer'', level = Tx, attributes = [(''a'', ''1''), (''b'', ''2'')]\<rparr>"]
  by simp

text \<open>C39: The wire event does not determine the event: the level is not part of
  it, and an \<^verbatim>\<open>Ibc\<close> event whose sub-type is the rendering of another type has the
  wire type of that type. Two events have the same wire event exactly when their
  types render alike and their attribute maps iterate alike.\<close>
theorem from_event_eq_iff:
  "from_event e = from_event e' \<longleftrightarrow>
     fmt (event_type e) = fmt (event_type e') \<and> attributes e = attributes e'"
proof
  assume eq: "from_event e = from_event e'"
  then have "abci_type (from_event e) = abci_type (from_event e')"
    and "wire_pairs (from_event e) = wire_pairs (from_event e')"
    by simp_all
  then show "fmt (event_type e) = fmt (event_type e') \<and> attributes e = attributes e'"
    by simp
next
  assume "fmt (event_type e) = fmt (event_type e') \<and> attributes e = attributes e'"
  then show "from_event e = from_event e'" by (simp add: from_event_def)
qed

end
