(* ===== verification/Parse_Loop.thy ===== *)
theory Parse_Loop
  imports Event_Attributes "HOL-Library.While_Combinator"
begin

text \<open>
  The \<^verbatim>\<open>for\<close> loop of \<^verbatim>\<open>impl TryFrom<&serde_json::Value> for Attributes\<close> as the state
  machine the program runs, beside its rendering as the recursive function
  \<open>parse_attrs\<close> of \<^verbatim>\<open>Event_Attributes\<close>.

  \<^item> \<open>loop_state\<close> holds what the loop mutates: \<open>rest\<close>, the records the iterator of
    \<^verbatim>\<open>for attr in attrs\<close> has not yet handed out, and \<open>acc\<close>, the local \<^verbatim>\<open>attributes\<close> map.
  \<^item> \<open>control\<close> says where the function is: \<open>Running\<close> in the loop, or \<open>Exit\<close> with the
    value the function returns, which is reached by a \<^verbatim>\<open>?\<close>, by a failed \<^verbatim>\<open>unwrap()\<close> or
    by \<^verbatim>\<open>Ok(Attributes(attributes))\<close> after the iterator is exhausted.
  \<^item> \<open>loop_step\<close> is one pass through the loop head and body, \<open>loop_while\<close> the loop as
    \<open>while_option\<close>, and \<open>try_from_loop\<close> the whole conversion run that way; its result is
    an \<open>option\<close>, \<open>None\<close> standing for a loop that does not return.
  \<^item> \<open>loop_rel\<close> is the same step as a relation and \<open>reach\<close> the states the loop can be
    in when it is started on an array.
  \<^item> \<open>loop_measure\<close>, the number of records left plus one, is what every step
    decreases; \<open>loop_result\<close> is the value \<open>parse_attrs\<close> assigns to a state;
    \<open>loop_inv\<close> is the invariant of the reachable states: the records handed out so
    far are a well-formed prefix of the array and the map is what inserting their
    pairs in order builds.

  The lemmas show that relation and step function agree, that the step keeps
  \<open>loop_result\<close> and decreases \<open>loop_measure\<close>, hence that the loop returns within
  \<open>length items + 1\<close> steps, with the value of the recursive function.
\<close>

section \<open>State and steps of the loop\<close>

record loop_state =
  rest :: "json list"
  acc :: attrs

datatype control = Running loop_state | Exit "Error failure + Attributes"

definition loop_init :: "json list \<Rightarrow> control" where
  "loop_init items = Running \<lparr>rest = items, acc = []\<rparr>"

fun running :: "control \<Rightarrow> bool" where
  "running (Running s) = True"
| "running (Exit r) = False"

fun loop_step :: "control \<Rightarrow> control" where
  "loop_step (Running s) =
     (case rest s of
        [] \<Rightarrow> Exit (Inr (Attributes (acc s)))
      | attr # items \<Rightarrow>
          (case parse_attr attr (acc s) of
             Inl f \<Rightarrow> Exit (Inl f)
           | Inr m \<Rightarrow> Running \<lparr>rest = items, acc = m\<rparr>))"
| "loop_step (Exit r) = Exit r"

definition loop_while :: "json list \<Rightarrow> control option" where
  "loop_while items = while_option running loop_step (loop_init items)"

definition try_from_loop :: "json \<Rightarrow> (Error failure + Attributes) option" where
  "try_from_loop json =
     (case and_then (ok_or (json_get json ''attributes'') MissingAttributes)
             (\<lambda>a. unwrap_err (from_value_vec a)) of
        Inl f \<Rightarrow> Some (Inl f)
      | Inr items \<Rightarrow>
          (case loop_while items of
             Some (Exit r) \<Rightarrow> Some r
           | _ \<Rightarrow> None))"

inductive loop_rel :: "control \<Rightarrow> control \<Rightarrow> bool" where
  loop_next: "rest s = attr # items \<Longrightarrow> parse_attr attr (acc s) = Inr m \<Longrightarrow>
     loop_rel (Running s) (Running \<lparr>rest = items, acc = m\<rparr>)"
| loop_fail: "rest s = attr # items \<Longrightarrow> parse_attr attr (acc s) = Inl f \<Longrightarrow>
     loop_rel (Running s) (Exit (Inl f))"
| loop_done: "rest s = [] \<Longrightarrow> loop_rel (Running s) (Exit (Inr (Attributes (acc s))))"

inductive reach :: "json list \<Rightarrow> control \<Rightarrow> bool" for items where
  reach_init: "reach items (loop_init items)"
| reach_step: "reach items c \<Longrightarrow> loop_rel c c' \<Longrightarrow> reach items c'"

section \<open>Measure, result and invariant\<close>

fun loop_measure :: "control \<Rightarrow> nat" where
  "loop_measure (Running s) = Suc (length (rest s))"
| "loop_measure (Exit r) = 0"

fun loop_result :: "control \<Rightarrow> Error failure + Attributes" where
  "loop_result (Running s) =
     and_then (parse_attrs (rest s) (acc s)) (\<lambda>m. Inr (Attributes m))"
| "loop_result (Exit r) = r"

fun loop_inv :: "json list \<Rightarrow> control \<Rightarrow> bool" where
  "loop_inv items (Running s) =
     (let n = length items - length (rest s)
      in length (rest s) \<le> length items \<and> rest s = drop n items \<and>
         (case pairs_of (take n items) of
            None \<Rightarrow> False
          | Some kvs \<Rightarrow> acc s = insert_all kvs []))"
| "loop_inv items (Exit r) = (r = loop_result (loop_init items))"

inductive_cases loop_rel_RunningE [elim]: "loop_rel (Running s) c"
inductive_cases loop_rel_ExitE [elim!]: "loop_rel (Exit r) c"

section \<open>The relation and the step function\<close>

lemma loop_rel_iff [code]: "loop_rel c c' \<longleftrightarrow> running c \<and> c' = loop_step c"
proof
  assume "loop_rel c c'"
  then show "running c \<and> c' = loop_step c"
    by (induction rule: loop_rel.induct) simp_all
next
  assume r: "running c \<and> c' = loop_step c"
  then obtain s where c: "c = Running s" by (cases c) auto
  show "loop_rel c c'"
  proof (cases "rest s")
    case Nil
    with r c show ?thesis by (simp add: loop_done)
  next
    case (Cons attr items)
    with r c show ?thesis
      by (cases "parse_attr attr (acc s)") (simp_all add: loop_next loop_fail)
  qed
qed

lemma loop_rel_deterministic: "loop_rel c c' \<Longrightarrow> loop_rel c c'' \<Longrightarrow> c'' = c'"
  by (simp add: loop_rel_iff)

lemma loop_progress: "running c \<Longrightarrow> \<exists>c'. loop_rel c c'"
  by (simp add: loop_rel_iff)

lemma loop_final: "\<not> loop_rel (Exit r) c"
  by auto

lemma running_iff_measure: "running c \<longleftrightarrow> 0 < loop_measure c"
  by (cases c) simp_all

lemma loop_measure_step: "running c \<Longrightarrow> loop_measure (loop_step c) < loop_measure c"
  by (cases c) (auto split: list.splits sum.splits)

lemma loop_measure_decreases: "loop_rel c c' \<Longrightarrow> loop_measure c' < loop_measure c"
  by (simp add: loop_rel_iff loop_measure_step)

lemma loop_result_step [simp]: "loop_result (loop_step c) = loop_result c"
  by (cases c) (auto split: list.splits sum.splits)

lemma loop_result_rel: "loop_rel c c' \<Longrightarrow> loop_result c' = loop_result c"
  by (simp add: loop_rel_iff)

lemma loop_result_init:
  "loop_result (loop_init items) = and_then (parse_attrs items []) (\<lambda>m. Inr (Attributes m))"
  by (simp add: loop_init_def)

section \<open>Running the loop\<close>

lemma while_loop_step: "while_option running loop_step c = Some (Exit (loop_result c))"
proof (induction "loop_measure c" arbitrary: c rule: less_induct)
  case less
  show ?case
  proof (cases c)
    case (Exit r)
    then show ?thesis by (simp add: while_option_unfold)
  next
    case (Running s)
    then have "loop_measure (loop_step c) < loop_measure c"
      by (intro loop_measure_step) simp
    then have "while_option running loop_step (loop_step c) =
        Some (Exit (loop_result (loop_step c)))"
      by (rule less.hyps)
    with Running show ?thesis
      by (subst while_option_unfold) (simp del: loop_step.simps)
  qed
qed

lemma loop_while_eq: "loop_while items = Some (Exit (loop_result (loop_init items)))"
  by (simp add: loop_while_def while_loop_step)

lemma funpow_loop_step_Exit [simp]: "(loop_step ^^ n) (Exit r) = Exit r"
  by (induction n) simp_all

lemma funpow_loop_step:
  "loop_measure c \<le> n \<Longrightarrow> (loop_step ^^ n) c = Exit (loop_result c)"
proof (induction n arbitrary: c)
  case 0
  then show ?case by (cases c) simp_all
next
  case (Suc n)
  show ?case
  proof (cases "running c")
    case False
    then show ?thesis by (cases c) simp_all
  next
    case True
    with Suc.prems have "loop_measure (loop_step c) \<le> n"
      using loop_measure_step [of c] by simp
    then have "(loop_step ^^ n) (loop_step c) = Exit (loop_result (loop_step c))"
      by (rule Suc.IH)
    then show ?thesis by (simp add: funpow_swap1)
  qed
qed

lemma loop_reaches_result: "rtranclp loop_rel c (Exit (loop_result c))"
proof (induction "loop_measure c" arbitrary: c rule: less_induct)
  case less
  show ?case
  proof (cases "running c")
    case False
    then show ?thesis by (cases c) simp_all
  next
    case True
    then have step: "loop_rel c (loop_step c)" by (simp add: loop_rel_iff)
    from True have "rtranclp loop_rel (loop_step c) (Exit (loop_result (loop_step c)))"
      by (intro less.hyps loop_measure_step)
    with step show ?thesis by (simp add: converse_rtranclp_into_rtranclp)
  qed
qed

lemma loop_result_star: "rtranclp loop_rel c c' \<Longrightarrow> loop_result c' = loop_result c"
  by (induction rule: rtranclp_induct) (simp_all add: loop_result_rel)

lemma reach_star: "reach items c \<longleftrightarrow> rtranclp loop_rel (loop_init items) c"
proof
  show "reach items c \<Longrightarrow> rtranclp loop_rel (loop_init items) c"
    by (induction rule: reach.induct) auto
  show "rtranclp loop_rel (loop_init items) c \<Longrightarrow> reach items c"
    by (induction rule: rtranclp_induct) (auto intro: reach.intros)
qed

lemma reach_result: "reach items c \<Longrightarrow> loop_result c = loop_result (loop_init items)"
  by (simp add: reach_star loop_result_star)

section \<open>Reachable states\<close>

lemma pairs_of_snoc:
  "pairs_of xs = Some kvs \<Longrightarrow> pair_of a = Some p \<Longrightarrow> pairs_of (xs @ [a]) = Some (kvs @ [p])"
  by (induction xs arbitrary: kvs) (auto split: option.splits)

lemma reach_Running:
  "reach items c \<Longrightarrow> c = Running s \<Longrightarrow>
   \<exists>seen kvs. items = seen @ rest s \<and> pairs_of seen = Some kvs \<and> acc s = insert_all kvs []"
proof (induction arbitrary: s rule: reach.induct)
  case reach_init
  then have "items = [] @ rest s \<and> pairs_of [] = Some [] \<and> acc s = insert_all [] []"
    by (auto simp: loop_init_def)
  then show ?case by blast
next
  case (reach_step c c')
  from reach_step.hyps(2) reach_step.prems obtain s0 attr where
    c: "c = Running s0" and r: "rest s0 = attr # rest s"
    and p: "parse_attr attr (acc s0) = Inr (acc s)"
    by (auto elim: loop_rel.cases)
  from reach_step.IH [OF c] obtain seen kvs where
    i: "items = seen @ rest s0" and k: "pairs_of seen = Some kvs"
    and a: "acc s0 = insert_all kvs []"
    by blast
  from p obtain k v where kv: "pair_of attr = Some (k, v)"
    and m: "acc s = AList.update k v (acc s0)"
    by (auto simp: parse_attr_Inr_iff)
  from i r have "items = (seen @ [attr]) @ rest s" by simp
  moreover from k kv have "pairs_of (seen @ [attr]) = Some (kvs @ [(k, v)])"
    by (rule pairs_of_snoc)
  moreover from m a have "acc s = insert_all (kvs @ [(k, v)]) []"
    by (simp add: insert_all_append)
  ultimately show ?case by blast
qed

lemma reach_inv: "reach items c \<Longrightarrow> loop_inv items c"
proof (cases c)
  case (Running s)
  assume "reach items c"
  with Running obtain seen kvs where "items = seen @ rest s" "pairs_of seen = Some kvs"
    "acc s = insert_all kvs []"
    using reach_Running by blast
  with Running show ?thesis by simp
next
  case (Exit r)
  assume "reach items c"
  with Exit show ?thesis using reach_result [of items c] by simp
qed

lemma reach_hm_inv: "reach items (Running s) \<Longrightarrow> hm_inv (acc s)"
  using reach_Running [of items "Running s" s] by auto

section \<open>Properties of the loop\<close>

text \<open>C13: The loop of the conversion terminates on every array: run as a
  \<^verbatim>\<open>while\<close> loop over its state it returns, and it has returned after at most one
  step for each record and one more for the exhausted iterator.\<close>
theorem loop_while_terminates:
  "\<exists>r. loop_while items = Some (Exit r) \<and>
       (loop_step ^^ Suc (length items)) (loop_init items) = Exit r"
proof -
  have "loop_measure (loop_init items) \<le> Suc (length items)"
    by (simp add: loop_init_def)
  then have "(loop_step ^^ Suc (length items)) (loop_init items) =
      Exit (loop_result (loop_init items))"
    by (rule funpow_loop_step)
  then show ?thesis by (simp add: loop_while_eq)
qed

text \<open>C12: The conversion run as a state machine returns, and returns what the
  conversion defined by recursion over the array returns: the same attribute
  collection, the same error or the same panic, on every JSON value.\<close>
theorem try_from_loop_eq: "try_from_loop j = Some (try_from j)"
proof (cases "json_get j ''attributes''")
  case None
  then show ?thesis by (simp add: try_from_loop_def try_from_def)
next
  case (Some a)
  then show ?thesis
    by (cases "from_value_vec a")
      (simp_all add: try_from_loop_def try_from_def loop_while_eq loop_result_init)
qed

text \<open>C19: From every state the loop can be in, it reaches a return: the steps from a
  reachable state lead to an exit, and the only exit they can lead to carries the
  value the conversion assigns to the array the loop was started on.\<close>
theorem loop_always_exits:
  assumes "reach items c"
  shows "rtranclp loop_rel c (Exit (loop_result (loop_init items))) \<and>
         (\<forall>r. rtranclp loop_rel c (Exit r) \<longrightarrow> r = loop_result (loop_init items))"
proof -
  from assms have res: "loop_result c = loop_result (loop_init items)" by (rule reach_result)
  show ?thesis
  proof (intro conjI allI impI)
    show "rtranclp loop_rel c (Exit (loop_result (loop_init items)))"
      using loop_reaches_result [of c] by (simp add: res)
  next
    fix r
    assume "rtranclp loop_rel c (Exit r)"
    then have "loop_result (Exit r) = loop_result c" by (rule loop_result_star)
    with res show "r = loop_result (loop_init items)" by simp
  qed
qed

theorem loop_always_exits_witness:
  "rtranclp loop_rel
     (loop_init [JObject [(''key'', JString ''k''), (''value'', JString ''v'')], JNull])
     (Exit (Inl (Err (MissingKey ''null''))))"
proof -
  let ?items = "[JObject [(''key'', JString ''k''), (''value'', JString ''v'')], JNull]"
  have "reach ?items (loop_init ?items)" by (rule reach_init)
  from loop_always_exits [OF this, THEN conjunct1] show ?thesis
    by (simp add: loop_result_init parse_attr_def)
qed

text \<open>C20: In every state the loop can be in while it runs, the records handed out so
  far are a well-formed prefix of the array, the records left are the rest of it, the
  map holds what inserting the pairs of that prefix in order builds, and its keys
  are distinct; a state in which the loop has returned carries the value of the
  conversion.\<close>
theorem reach_loop_inv:
  assumes "reach items c"
  shows "loop_inv items c \<and> (\<forall>s. c = Running s \<longrightarrow> hm_inv (acc s))"
  using assms by (auto simp: reach_inv reach_hm_inv)

theorem reach_loop_inv_witness:
  "loop_inv [JObject [(''key'', JString ''k''), (''value'', JString ''v'')], JNull]
     (Running \<lparr>rest = [JNull], acc = [(''k'', ''v'')]\<rparr>)"
proof -
  let ?items = "[JObject [(''key'', JString ''k''), (''value'', JString ''v'')], JNull]"
  have "loop_rel (loop_init ?items) (loop_step (loop_init ?items))"
    by (simp add: loop_rel_iff loop_init_def)
  with reach_init [of ?items] have "reach ?items (loop_step (loop_init ?items))"
    by (rule reach_step)
  from reach_loop_inv [OF this, THEN conjunct1] show ?thesis
    by (simp add: loop_init_def parse_attr_def)
qed

end
