(* ===== verification/Attributes_Spec.thy ===== *)
theory Attributes_Spec
  imports Event_Attributes
begin

text \<open>
  What the attribute parser of \<^verbatim>\<open>events.rs\<close> is specified against: a reference
  definition of the conversion and the shapes of the JSON values it meets. Nothing
  here is a translation of code.

  \<^item> \<open>try_from_spec\<close> says in one case distinction what the conversion returns: the
    error \<^verbatim>\<open>MissingAttributes\<close> without the member \<^verbatim>\<open>attributes\<close>, a panic when it is not an
    array, the failure of the first record that is not well formed
    (\<open>record_failure\<close>), and otherwise the map of all pairs.
  \<^item> \<open>jty\<close> is a small language of shapes of JSON values and \<open>has_type\<close> the judgement
    that a value has a shape; an object type lists the members a value must have
    and allows any others. \<open>subtype\<close> is the induced order on shapes.
  \<^item> \<open>payload_ty\<close> is the shape the parser expects
    (\<^verbatim>\<open>{attributes: [{key: string, value: string}]}\<close>), \<open>wire_ty\<close> the shape of a wire event
    (\<^verbatim>\<open>{type: string, attributes: [{key, value: string, index: bool}]}\<close>).

  The lemmas show that the loop of the parser computes the reference definition, that
  the parser succeeds exactly on the values of shape \<open>payload_ty\<close>, and that a subtype's
  values are values of the supertype.
\<close>

section \<open>Reference specification of the conversion\<close>

definition record_failure :: "json \<Rightarrow> Error failure" where
  "record_failure attr =
     (case json_get attr ''key'' of
        None \<Rightarrow> Err (MissingKey (json_to_string attr))
      | Some (JString k) \<Rightarrow>
          (case json_get attr ''value'' of
             None \<Rightarrow> Err (MissingValue (json_to_string attr))
           | Some vj \<Rightarrow> Panic UnwrapErr)
      | Some kj \<Rightarrow> Panic UnwrapErr)"

definition try_from_spec :: "json \<Rightarrow> Error failure + Attributes" where
  "try_from_spec j =
     (case json_get j ''attributes'' of
        None \<Rightarrow> Inl (Err MissingAttributes)
      | Some (JArray items) \<Rightarrow>
          (case find (\<lambda>a. pair_of a = None) items of
             Some bad \<Rightarrow> Inl (record_failure bad)
           | None \<Rightarrow> Inr (Attributes (insert_all (List.map_filter pair_of items) [])))
      | Some a \<Rightarrow> Inl (Panic UnwrapErr))"

section \<open>Shapes of JSON values\<close>

datatype jty =
    TAny
  | TBool
  | TNumber
  | TString
  | TArray jty
  | TObject "(string \<times> jty) list"

fun has_type :: "jty \<Rightarrow> json \<Rightarrow> bool" where
  "has_type TAny j = True"
| "has_type TBool j = (case j of JBool b \<Rightarrow> True | _ \<Rightarrow> False)"
| "has_type TNumber j = (case j of JNumber i \<Rightarrow> True | _ \<Rightarrow> False)"
| "has_type TString j = (case j of JString s \<Rightarrow> True | _ \<Rightarrow> False)"
| "has_type (TArray t) j =
     (case j of JArray xs \<Rightarrow> list_all (has_type t) xs | _ \<Rightarrow> False)"
| "has_type (TObject fs) j =
     (case j of
        JObject m \<Rightarrow>
          list_all (\<lambda>(k, t). case map_of m k of None \<Rightarrow> False | Some v \<Rightarrow> has_type t v) fs
      | _ \<Rightarrow> False)"

fun subtype :: "jty \<Rightarrow> jty \<Rightarrow> bool" where
  "subtype s TAny = True"
| "subtype (TArray s) (TArray t) = subtype s t"
| "subtype (TObject fs) (TObject gs) =
     list_all (\<lambda>(k, t). case map_of fs k of None \<Rightarrow> False | Some s \<Rightarrow> subtype s t) gs"
| "subtype s t = (s = t)"

definition attribute_ty :: jty where
  "attribute_ty = TObject [(''key'', TString), (''value'', TString)]"

definition payload_ty :: jty where
  "payload_ty = TObject [(''attributes'', TArray attribute_ty)]"

definition wire_ty :: jty where
  "wire_ty =
     TObject [(''attributes'',
                TArray (TObject [(''index'', TBool), (''key'', TString), (''value'', TString)])),
              (''type'', TString)]"

section \<open>The loop against its specification\<close>

lemma parse_attr_record_failure:
  "pair_of attr = None \<Longrightarrow> parse_attr attr acc = Inl (record_failure attr)"
  by (auto simp: pair_of_def parse_attr_def record_failure_def
      split: option.splits json.splits)

lemma parse_attrs_spec:
  "parse_attrs items acc =
     (case find (\<lambda>a. pair_of a = None) items of
        Some bad \<Rightarrow> Inl (record_failure bad)
      | None \<Rightarrow> Inr (insert_all (List.map_filter pair_of items) acc))"
proof (induction items arbitrary: acc)
  case Nil
  show ?case by (simp add: List.map_filter_def)
next
  case (Cons a items)
  show ?case
  proof (cases "pair_of a")
    case None
    then show ?thesis by (simp add: parse_attr_record_failure)
  next
    case (Some p)
    obtain k v where p: "p = (k, v)" by (cases p)
    with Some show ?thesis
      by (simp add: parse_attr_pair Cons.IH List.map_filter_def split: option.splits)
  qed
qed

section \<open>Typing\<close>

lemma has_type_attribute_ty: "has_type attribute_ty a \<longleftrightarrow> pair_of a \<noteq> None"
  by (cases a)
    (auto simp: attribute_ty_def pair_of_def split: option.splits json.splits)

lemma pairs_of_Some_iff: "(\<exists>kvs. pairs_of items = Some kvs) \<longleftrightarrow> list_all (has_type attribute_ty) items"
  by (induction items) (auto simp: has_type_attribute_ty split: option.splits)

lemma has_type_payload_ty:
  "has_type payload_ty j \<longleftrightarrow>
     (\<exists>items. json_get j ''attributes'' = Some (JArray items) \<and>
        list_all (has_type attribute_ty) items)"
  by (cases j) (auto simp: payload_ty_def split: option.splits json.splits)

lemma payload_type_sound: "has_type payload_ty j \<longleftrightarrow> (\<exists>a. try_from j = Inr a)"
  by (auto simp: has_type_payload_ty try_from_Inr_iff pairs_of_Some_iff [symmetric])

lemma subsumption: "subtype s t \<Longrightarrow> has_type s j \<Longrightarrow> has_type t j"
proof (induction s t arbitrary: j rule: subtype.induct)
  case (3 fs gs)
  from "3.prems"(2) obtain m where j: "j = JObject m" by (cases j) auto
  have "list_all (\<lambda>(k, t). case map_of m k of None \<Rightarrow> False | Some v \<Rightarrow> has_type t v) gs"
    unfolding list_all_iff
  proof (clarify)
    fix k t
    assume kt: "(k, t) \<in> set gs"
    with "3.prems"(1) obtain s where s: "map_of fs k = Some s" and st: "subtype s t"
      by (auto simp: list_all_iff split: option.splits)
    from s have "(k, s) \<in> set fs" by (rule map_of_SomeD)
    with "3.prems"(2) j obtain v where v: "map_of m k = Some v" and "has_type s v"
      by (auto simp: list_all_iff split: option.splits)
    with "3.IH" [OF kt refl s st] show "case map_of m k of None \<Rightarrow> False | Some v \<Rightarrow> has_type t v"
      by simp
  qed
  with j show ?case by simp
next
  case (2 s t)
  then show ?case by (cases j) (auto simp: list_all_iff)
qed (auto split: json.splits)

lemma subtype_wire_payload: "subtype wire_ty payload_ty"
  by (simp add: wire_ty_def payload_ty_def attribute_ty_def)

section \<open>The conversion against its specification\<close>

text \<open>C11: The conversion computes its reference specification on every JSON value:
  \<^verbatim>\<open>MissingAttributes\<close> when the member \<^verbatim>\<open>attributes\<close> is absent, a panic when it is not
  an array, otherwise the failure of the first record that has no string key and
  string value (\<^verbatim>\<open>MissingKey\<close> without a key, a panic for a key that is not a string,
  \<^verbatim>\<open>MissingValue\<close> without a value, a panic for a value that is not a string), and
  the map of all pairs when every record is well formed.\<close>
theorem try_from_eq_spec: "try_from j = try_from_spec j"
proof (cases "json_get j ''attributes''")
  case None
  then show ?thesis by (simp add: try_from_def try_from_spec_def)
next
  case (Some a)
  then show ?thesis
    by (cases a)
      (simp_all add: try_from_def try_from_spec_def parse_attrs_spec split: option.splits)
qed

end
