(* ===== verification/Iteration_Order.thy ===== *)
theory Iteration_Order
  imports Event_Conversions "HOL-Library.Multiset"
begin

text \<open>
  Rust leaves the order in which a \<^verbatim>\<open>HashMap\<close> iterates unspecified, and
  \<^verbatim>\<open>impl From<Event> for tendermint_proto::abci::Event\<close> builds the attribute list of
  the wire event by iterating over the map. The model fixes one order for each map
  value, the order of its association list. This theory shows what does not depend
  on that choice: two association lists with distinct keys denote the same map
  exactly when they are permutations of each other, that is, have the same
  multiset, and the wire events of two events with the same attribute map differ
  only by a permutation of their attributes.
\<close>

section \<open>Hash maps up to order\<close>

lemma mset_eq_hm_inv: "mset xs = mset ys \<Longrightarrow> hm_inv xs \<longleftrightarrow> hm_inv ys"
proof -
  assume "mset xs = mset ys"
  then have "mset (map fst xs) = mset (map fst ys)" by simp
  then show ?thesis unfolding hm_inv_def by (rule mset_eq_imp_distinct_iff)
qed

lemma mset_eq_map_of: "hm_inv xs \<Longrightarrow> mset xs = mset ys \<Longrightarrow> map_of ys = map_of xs"
proof -
  assume inv: "hm_inv xs" and eq: "mset xs = mset ys"
  from inv have "hm_inv ys" using mset_eq_hm_inv [OF eq] by simp
  moreover from eq have "set ys = set xs" by (rule mset_eq_setD [symmetric])
  ultimately show ?thesis using inv by (simp add: hm_ext)
qed

lemma hm_mset_iff:
  "hm_inv xs \<Longrightarrow> hm_inv ys \<Longrightarrow> mset xs = mset ys \<longleftrightarrow> map_of xs = map_of ys"
proof
  assume "hm_inv xs" "mset xs = mset ys"
  then show "map_of xs = map_of ys" by (rule mset_eq_map_of [symmetric])
next
  assume inv: "hm_inv xs" "hm_inv ys" and "map_of xs = map_of ys"
  then have "set xs = set ys" by (simp add: hm_ext)
  moreover from inv have "distinct xs" "distinct ys" by (simp_all add: hm_inv_distinct)
  ultimately show "mset xs = mset ys" by (simp add: set_eq_iff_mset_eq_distinct)
qed

section \<open>Wire events up to order\<close>

lemma mset_wire_pairs:
  "mset (wire_pairs w) = image_mset (\<lambda>a. (attr_key a, attr_value a)) (mset (abci_attributes w))"
  by (simp add: wire_pairs_def)

lemma mset_abci_attributes_from_event:
  "mset (abci_attributes (from_event e)) =
     image_mset (\<lambda>(key, value). \<lparr>attr_key = key, attr_value = value, attr_index = True\<rparr>)
       (mset (attributes e))"
  by (simp add: from_event_def)

lemma mset_wire_pairs_cong:
  "mset (abci_attributes w) = mset (abci_attributes w') \<Longrightarrow>
   mset (wire_pairs w) = mset (wire_pairs w')"
  by (simp add: mset_wire_pairs)

section \<open>The wire event up to order\<close>

text \<open>C30: The iteration order of the attribute map only permutes the wire event:
  the wire events of two events with distinct attribute keys hold the same
  attributes, each as often, exactly when the two events have the same attribute
  map.\<close>
theorem from_event_order_independent:
  assumes "wf_event e" and "wf_event e'"
  shows "mset (abci_attributes (from_event e)) = mset (abci_attributes (from_event e')) \<longleftrightarrow>
           map_of (attributes e) = map_of (attributes e')"
proof
  assume "mset (abci_attributes (from_event e)) = mset (abci_attributes (from_event e'))"
  then have "mset (wire_pairs (from_event e)) = mset (wire_pairs (from_event e'))"
    by (rule mset_wire_pairs_cong)
  then have "mset (attributes e) = mset (attributes e')" by simp
  with assms show "map_of (attributes e) = map_of (attributes e')"
    using hm_mset_iff [of "attributes e" "attributes e'"] by (simp add: wf_event_def)
next
  assume "map_of (attributes e) = map_of (attributes e')"
  with assms have "mset (attributes e) = mset (attributes e')"
    using hm_mset_iff [of "attributes e" "attributes e'"] by (simp add: wf_event_def)
  then show "mset (abci_attributes (from_event e)) = mset (abci_attributes (from_event e'))"
    by (simp add: mset_abci_attributes_from_event)
qed

theorem from_event_order_independent_witness:
  "mset (abci_attributes (from_event
      \<lparr>event_type = Applied, level = Tx, attributes = [(''hash'', ''AB''), (''log'', [])]\<rparr>)) =
   mset (abci_attributes (from_event
      \<lparr>event_type = Applied, level = Tx, attributes = [(''log'', []), (''hash'', ''AB'')]\<rparr>))"
proof -
  let ?e = "\<lparr>event_type = Applied, level = Tx, attributes = [(''hash'', ''AB''), (''log'', [])]\<rparr>"
  let ?e' = "\<lparr>event_type = Applied, level = Tx, attributes = [(''log'', []), (''hash'', ''AB'')]\<rparr>"
  have "wf_event ?e" "wf_event ?e'" by (simp_all add: wf_event_def)
  moreover have "map_of (attributes ?e) = map_of (attributes ?e')" by (rule ext) simp
  ultimately show ?thesis by (simp only: from_event_order_independent)
qed

end
