(* ===== verification/Json_Reader.thy ===== *)
theory Json_Reader
  imports Serde_Json
begin

text \<open>
  A reader for the text that \<open>json_to_string\<close> writes, as the reference against which the
  serialisation is judged. The parser of \<^verbatim>\<open>events.rs\<close> puts the serialised record into
  its errors \<^verbatim>\<open>MissingKey\<close> and \<^verbatim>\<open>MissingValue\<close>, and a wire event reaches a subscriber as
  text; both are useful only if the text determines the value. Nothing here is a
  translation of code of the repository.

  \<^item> \<open>read_string\<close> reads the body of a string literal up to its closing quote, with the
    escapes of JSON (\<open>unescape\<close>, and \<open>read_hex4\<close> for \<^verbatim>\<open>\u00XX\<close>); a control character
    that is not escaped is refused.
  \<^item> \<open>read_number\<close> reads an integer: an optional sign and digits with no leading
    zero; \<^verbatim>\<open>-0\<close> is refused, since the model has no negative zero.
  \<^item> \<open>read_value\<close>, \<open>read_elems\<close> and \<open>read_members\<close> are a recursive descent over the
    compact form (no white space). They recurse on a fuel argument that every call
    decreases, so the functions are total; \<open>json_read\<close> gives them one more unit of
    fuel than the text has characters and accepts only if the whole text is read.
  \<^item> \<open>fuel_of\<close> is the fuel a value needs, \<open>ok_rest\<close> holds of the texts that may follow
    a value (nothing, or a comma or a closing bracket), and \<open>reads_back\<close> is the property
    the induction carries.

  The lemmas show that every escaped character and every string reads back
  (\<open>read_string_escape_char\<close>, \<open>read_string_quote\<close>), that every integer reads back
  (\<open>read_number_int_to_string\<close>), that every value reads back given the fuel \<open>fuel_of\<close>
  (\<open>reads_back_all\<close>), that the length of the text is fuel enough (\<open>fuel_of_le_length\<close>),
  and so that \<open>json_read\<close> inverts \<open>json_to_string\<close> (\<open>json_read_json_to_string\<close>), which
  makes the serialisation injective (\<open>json_to_string_inj\<close>).
\<close>

section \<open>Reading strings\<close>

definition hex_digit_val :: "char \<Rightarrow> nat option" where
  "hex_digit_val c =
     (let n = (of_char c :: nat)
      in if 48 \<le> n \<and> n \<le> 57 then Some (n - 48)
         else if 97 \<le> n \<and> n \<le> 102 then Some (n - 87)
         else if 65 \<le> n \<and> n \<le> 70 then Some (n - 55)
         else None)"

definition unescape :: "char \<Rightarrow> char option" where
  "unescape e =
     (let n = (of_char e :: nat)
      in if n = 34 then Some (CHR 0x22)
         else if n = 92 then Some (CHR 0x5C)
         else if n = 47 then Some (CHR ''/'')
         else if n = 98 then Some (CHR 0x08)
         else if n = 102 then Some (CHR 0x0C)
         else if n = 110 then Some (CHR 0x0A)
         else if n = 114 then Some (CHR 0x0D)
         else if n = 116 then Some (CHR 0x09)
         else None)"

definition read_hex4 :: "char \<Rightarrow> char \<Rightarrow> char \<Rightarrow> char \<Rightarrow> char option" where
  "read_hex4 a b c d =
     (case (hex_digit_val a, hex_digit_val b, hex_digit_val c, hex_digit_val d) of
        (Some w, Some x, Some y, Some z) \<Rightarrow>
          (let n = ((w * 16 + x) * 16 + y) * 16 + z
           in if n < 256 then Some (char_of n) else None)
      | _ \<Rightarrow> None)"

fun read_string :: "string \<Rightarrow> (string \<times> string) option" where
  "read_string [] = None"
| "read_string (c # cs) =
     (if c = CHR 0x22 then Some ([], cs)
      else if c = CHR 0x5C then
        (case cs of
           [] \<Rightarrow> None
         | e # es \<Rightarrow>
             if e = CHR ''u'' then
               (case es of
                  a # b # c' # d # rest \<Rightarrow>
                    (case read_hex4 a b c' d of
                       None \<Rightarrow> None
                     | Some ch \<Rightarrow> map_option (apfst ((#) ch)) (read_string rest))
                | _ \<Rightarrow> None)
             else
               (case unescape e of
                  None \<Rightarrow> None
                | Some ch \<Rightarrow> map_option (apfst ((#) ch)) (read_string es)))
      else if (of_char c :: nat) < 32 then None
      else map_option (apfst ((#) c)) (read_string cs))"

section \<open>Reading numbers\<close>

definition read_number :: "string \<Rightarrow> (json \<times> string) option" where
  "read_number s =
     (let neg = (s \<noteq> [] \<and> hd s = CHR ''-'');
          body = (if neg then tl s else s);
          ds = takeWhile is_digit body;
          rest = dropWhile is_digit body
      in if ds = [] \<or> (hd ds = CHR ''0'' \<and> length ds \<noteq> 1) then None
         else (case dec_value 0 ds of
                 None \<Rightarrow> None
               | Some n \<Rightarrow>
                   if neg \<and> n = 0 then None
                   else Some (JNumber (if neg then - int n else int n), rest)))"

section \<open>Reading values\<close>

fun read_value :: "nat \<Rightarrow> string \<Rightarrow> (json \<times> string) option"
  and read_elems :: "nat \<Rightarrow> string \<Rightarrow> (json list \<times> string) option"
  and read_members :: "nat \<Rightarrow> string \<Rightarrow> ((string \<times> json) list \<times> string) option" where
  "read_value 0 s = None"
| "read_value (Suc n) s =
     (case s of
        [] \<Rightarrow> None
      | c # r \<Rightarrow>
          if c = CHR ''n'' then (if take 3 r = ''ull'' then Some (JNull, drop 3 r) else None)
          else if c = CHR ''t'' then
            (if take 3 r = ''rue'' then Some (JBool True, drop 3 r) else None)
          else if c = CHR ''f'' then
            (if take 4 r = ''alse'' then Some (JBool False, drop 4 r) else None)
          else if c = CHR 0x22 then map_option (apfst JString) (read_string r)
          else if c = CHR ''['' then
            (case r of
               [] \<Rightarrow> None
             | c' # r' \<Rightarrow>
                 if c' = CHR '']'' then Some (JArray [], r')
                 else map_option (apfst JArray) (read_elems n r))
          else if c = CHR ''{'' then
            (case r of
               [] \<Rightarrow> None
             | c' # r' \<Rightarrow>
                 if c' = CHR ''}'' then Some (JObject [], r')
                 else map_option (apfst JObject) (read_members n r))
          else read_number s)"
| "read_elems 0 s = None"
| "read_elems (Suc n) s =
     (case read_value n s of
        None \<Rightarrow> None
      | Some (v, r) \<Rightarrow>
          (case r of
             [] \<Rightarrow> None
           | c # r' \<Rightarrow>
               if c = CHR '','' then map_option (apfst ((#) v)) (read_elems n r')
               else if c = CHR '']'' then Some ([v], r')
               else None))"
| "read_members 0 s = None"
| "read_members (Suc n) s =
     (case s of
        [] \<Rightarrow> None
      | q # s' \<Rightarrow>
          if q \<noteq> CHR 0x22 then None
          else
            (case read_string s' of
               None \<Rightarrow> None
             | Some (k, r) \<Rightarrow>
                 (case r of
                    [] \<Rightarrow> None
                  | c # r' \<Rightarrow>
                      if c \<noteq> CHR '':'' then None
                      else
                        (case read_value n r' of
                           None \<Rightarrow> None
                         | Some (v, r'') \<Rightarrow>
                             (case r'' of
                                [] \<Rightarrow> None
                              | d # r3 \<Rightarrow>
                                  if d = CHR '','' then
                                    map_option (apfst ((#) (k, v))) (read_members n r3)
                                  else if d = CHR ''}'' then Some ([(k, v)], r3)
                                  else None)))))"

definition json_read :: "string \<Rightarrow> json option" where
  "json_read s =
     (case read_value (Suc (length s)) s of
        Some (j, []) \<Rightarrow> Some j
      | _ \<Rightarrow> None)"

section \<open>Fuel and follow sets\<close>

fun fuel_of :: "json \<Rightarrow> nat" where
  "fuel_of (JArray xs) = Suc (sum_list (map (\<lambda>x. Suc (fuel_of x)) xs))"
| "fuel_of (JObject m) = Suc (sum_list (map (\<lambda>(k, v). Suc (fuel_of v)) m))"
| "fuel_of j = 1"

fun ok_rest :: "string \<Rightarrow> bool" where
  "ok_rest [] = True"
| "ok_rest (c # cs) = (c = CHR '','' \<or> c = CHR '']'' \<or> c = CHR ''}'')"

text \<open>The property the induction carries: a value is read back from its text, whatever follows
  it, provided the fuel covers it.\<close>

definition reads_back :: "json \<Rightarrow> bool" where
  "reads_back j \<longleftrightarrow>
     (\<forall>n rest. fuel_of j \<le> n \<longrightarrow> ok_rest rest \<longrightarrow>
        read_value n (json_to_string j @ rest) = Some (j, rest))"

declare read_value.simps(2) [simp del] read_elems.simps(2) [simp del]
  read_members.simps(2) [simp del]

section \<open>Characters\<close>

lemmas json_read_eval =
  json_read_def read_value.simps(2) read_elems.simps(2) read_members.simps(2)
  read_number_def is_digit_def digit_val_def unescape_def read_hex4_def hex_digit_val_def


lemma char_eq_nat: "c = d \<longleftrightarrow> (of_char c :: nat) = of_char d"
  by simp

lemma hex_digit_val_lower:
  "d < 16 \<Longrightarrow> hex_digit_val (''0123456789abcdef'' ! d) = Some d"
  unfolding less_16_cases by (auto simp: hex_digit_val_def)

lemma read_hex4_low:
  assumes "n < 32"
  shows "read_hex4 (CHR ''0'') (CHR ''0'') (''0123456789abcdef'' ! (n div 16))
           (''0123456789abcdef'' ! (n mod 16)) = Some (char_of n)"
proof -
  from assms have "n div 16 < 16" by simp
  then have a: "hex_digit_val (''0123456789abcdef'' ! (n div 16)) = Some (n div 16)"
    by (rule hex_digit_val_lower)
  have b: "hex_digit_val (''0123456789abcdef'' ! (n mod 16)) = Some (n mod 16)"
    by (rule hex_digit_val_lower) simp
  have z: "hex_digit_val (CHR ''0'') = Some 0" by (simp add: hex_digit_val_def)
  from assms show ?thesis by (simp add: read_hex4_def a b z)
qed

section \<open>Strings read back\<close>

lemma read_string_escape_char:
  "read_string (escape_char c @ s) = map_option (apfst ((#) c)) (read_string s)"
proof -
  define n where "n = (of_char c :: nat)"
  have c: "c = char_of n" by (simp add: n_def)
  have lit: "n = 34 \<Longrightarrow> c = CHR 0x22" "n = 92 \<Longrightarrow> c = CHR 0x5C" "n = 8 \<Longrightarrow> c = CHR 0x08"
    "n = 12 \<Longrightarrow> c = CHR 0x0C" "n = 10 \<Longrightarrow> c = CHR 0x0A" "n = 13 \<Longrightarrow> c = CHR 0x0D"
    "n = 9 \<Longrightarrow> c = CHR 0x09"
    by (simp_all add: n_def char_eq_nat [of c])
  consider "n = 34" | "n = 92" | "n = 8" | "n = 12" | "n = 10" | "n = 13" | "n = 9"
    | "n < 32" "n \<notin> {8, 12, 10, 13, 9}" | "32 \<le> n" "n \<noteq> 34" "n \<noteq> 92"
    by fastforce
  then show ?thesis
  proof cases
    case 8
    then have "read_hex4 (CHR ''0'') (CHR ''0'') (''0123456789abcdef'' ! (n div 16))
        (''0123456789abcdef'' ! (n mod 16)) = Some c"
      by (simp add: read_hex4_low c)
    with 8 show ?thesis by (simp add: escape_char_def n_def [symmetric])
  next
    case 9
    then have "c \<noteq> CHR 0x22" "c \<noteq> CHR 0x5C" by (auto simp: n_def)
    with 9 show ?thesis by (simp add: escape_char_def n_def [symmetric])
  qed (simp_all add: escape_char_def n_def [symmetric] unescape_def lit)
qed

lemma read_string_body: "read_string (concat (map escape_char s) @ CHR 0x22 # rest) = Some (s, rest)"
  by (induction s) (simp_all add: read_string_escape_char)

lemma read_string_quote: "read_string (tl (quote s) @ rest) = Some (s, rest)"
  by (simp add: quote_def read_string_body)

lemma quote_Cons: "quote s = CHR 0x22 # tl (quote s)"
  by (simp add: quote_def)

section \<open>Numbers read back\<close>

lemma ok_rest_hd: "ok_rest rest \<Longrightarrow> rest = [] \<or> \<not> is_digit (hd rest)"
  by (cases rest) (auto simp: is_digit_def digit_val_def)

lemma takeWhile_digits:
  "list_all is_digit ds \<Longrightarrow> ok_rest rest \<Longrightarrow>
   takeWhile is_digit (ds @ rest) = ds \<and> dropWhile is_digit (ds @ rest) = rest"
  by (induction ds) (simp_all add: ok_rest_hd takeWhile_eq_Nil_iff dropWhile_eq_self_iff)

lemma hd_dec_digits_is_digit: "is_digit (hd (dec_digits n))"
  using list_all_is_digit_dec_digits [of n] dec_digits_nonempty [of n]
  by (cases "dec_digits n") simp_all

lemma hd_dec_digits_not_minus: "hd (dec_digits n) \<noteq> CHR ''-''"
  using hd_dec_digits_is_digit [of n] by (auto simp: is_digit_def digit_val_def)

lemma dec_digits_leading_zero: "hd (dec_digits n) = CHR ''0'' \<Longrightarrow> length (dec_digits n) = 1"
  by (drule hd_dec_digits_zero) simp

lemma read_number_nat:
  assumes "ok_rest rest"
  shows "read_number (dec_digits n @ rest) = Some (JNumber (int n), rest)"
proof -
  from assms have "takeWhile is_digit (dec_digits n @ rest) = dec_digits n"
    "dropWhile is_digit (dec_digits n @ rest) = rest"
    by (simp_all add: takeWhile_digits list_all_is_digit_dec_digits)
  moreover have "hd (dec_digits n @ rest) \<noteq> CHR ''-''"
    by (simp add: hd_append hd_dec_digits_not_minus)
  moreover have "\<not> (hd (dec_digits n) = CHR ''0'' \<and> length (dec_digits n) \<noteq> 1)"
    using dec_digits_leading_zero [of n] by blast
  ultimately show ?thesis
    by (simp add: read_number_def Let_def dec_value_dec_digits)
qed

lemma read_number_neg:
  assumes "ok_rest rest" and "0 < n"
  shows "read_number (CHR ''-'' # dec_digits n @ rest) = Some (JNumber (- int n), rest)"
proof -
  from assms have "takeWhile is_digit (dec_digits n @ rest) = dec_digits n"
    "dropWhile is_digit (dec_digits n @ rest) = rest"
    by (simp_all add: takeWhile_digits list_all_is_digit_dec_digits)
  moreover from assms(2) have "hd (dec_digits n) \<noteq> CHR ''0''"
    using hd_dec_digits_zero [of n] by auto
  ultimately show ?thesis
    using assms(2) by (simp add: read_number_def Let_def dec_value_dec_digits)
qed

lemma read_number_int_to_string:
  "ok_rest rest \<Longrightarrow> read_number (int_to_string i @ rest) = Some (JNumber i, rest)"
  by (simp add: int_to_string_def read_number_nat read_number_neg)

lemma number_start:
  "is_digit c \<or> c = CHR ''-'' \<Longrightarrow>
   c \<noteq> CHR ''n'' \<and> c \<noteq> CHR ''t'' \<and> c \<noteq> CHR ''f'' \<and> c \<noteq> CHR 0x22 \<and> c \<noteq> CHR ''['' \<and>
   c \<noteq> CHR ''{''"
  by (auto simp: is_digit_def digit_val_def)

lemma read_value_number:
  "is_digit c \<or> c = CHR ''-'' \<Longrightarrow> read_value (Suc n) (c # r) = read_number (c # r)"
  using number_start [of c] by (simp add: read_value.simps(2))

lemma int_to_string_Cons:
  "\<exists>c r. int_to_string i = c # r \<and> (is_digit c \<or> c = CHR ''-'')"
proof (cases "i < 0")
  case True
  then show ?thesis by (simp add: int_to_string_def)
next
  case False
  have "dec_digits (nat i) = hd (dec_digits (nat i)) # tl (dec_digits (nat i))" by simp
  with False have "int_to_string i = hd (dec_digits (nat i)) # tl (dec_digits (nat i))"
    by (simp add: int_to_string_def)
  with hd_dec_digits_is_digit [of "nat i"] show ?thesis by blast
qed

lemma read_value_int_to_string:
  assumes "ok_rest rest"
  shows "read_value (Suc n) (int_to_string i @ rest) = Some (JNumber i, rest)"
proof -
  obtain c r where c: "int_to_string i = c # r" "is_digit c \<or> c = CHR ''-''"
    using int_to_string_Cons by blast
  then have "read_value (Suc n) (int_to_string i @ rest) = read_number (int_to_string i @ rest)"
    by (simp add: read_value_number)
  with assms show ?thesis by (simp add: read_number_int_to_string)
qed

section \<open>Values read back\<close>

lemma read_value_quote: "read_value (Suc n) (quote s @ rest) = Some (JString s, rest)"
  by (subst quote_Cons) (simp add: read_value.simps(2) read_string_quote)

lemma json_to_string_Cons:
  "\<exists>c r. json_to_string j = c # r \<and> c \<noteq> CHR '']'' \<and> c \<noteq> CHR ''}''"
proof (cases j)
  case (JNumber i)
  obtain c r where "int_to_string i = c # r" "is_digit c \<or> c = CHR ''-''"
    using int_to_string_Cons by blast
  with JNumber show ?thesis by (auto simp: is_digit_def digit_val_def)
qed (auto simp: quote_def)

lemma fuel_of_pos: "0 < fuel_of j"
  by (cases j) simp_all

lemma reads_backD:
  "reads_back j \<Longrightarrow> fuel_of j \<le> n \<Longrightarrow> ok_rest rest \<Longrightarrow>
   read_value n (json_to_string j @ rest) = Some (j, rest)"
  by (simp add: reads_back_def)

lemma reads_backI:
  assumes "\<And>n rest. ok_rest rest \<Longrightarrow>
      read_value (Suc n) (json_to_string j @ rest) = Some (j, rest)"
  shows "reads_back j"
  unfolding reads_back_def
proof (intro allI impI)
  fix n rest
  assume "fuel_of j \<le> n" and rest: "ok_rest rest"
  with fuel_of_pos [of j] obtain m where "n = Suc m" by (cases n) auto
  with assms [OF rest] show "read_value n (json_to_string j @ rest) = Some (j, rest)"
    by simp
qed

lemma read_elems_back:
  assumes "\<And>x. x \<in> set xs \<Longrightarrow> reads_back x" and "xs \<noteq> []"
    and "sum_list (map (\<lambda>x. Suc (fuel_of x)) xs) \<le> n"
  shows "read_elems n (intersperse '','' (map json_to_string xs) @ CHR '']'' # rest)
         = Some (xs, rest)"
  using assms
proof (induction xs arbitrary: n)
  case Nil
  then show ?case by simp
next
  case (Cons x xs)
  from Cons.prems(3) obtain m where n: "n = Suc m" by (cases n) auto
  with Cons.prems(3) have fx: "fuel_of x \<le> m"
    and fxs: "sum_list (map (\<lambda>x. Suc (fuel_of x)) xs) \<le> m" by simp_all
  have x: "reads_back x" by (rule Cons.prems(1)) simp
  show ?case
  proof (cases xs)
    case Nil
    with reads_backD [OF x fx, of "CHR '']'' # rest"] show ?thesis
      by (simp add: n read_elems.simps(2))
  next
    case (Cons y ys)
    have "read_elems m (intersperse '','' (map json_to_string xs) @ CHR '']'' # rest)
          = Some (xs, rest)"
      using Cons.prems(1) Cons fxs by (intro Cons.IH) simp_all
    with Cons reads_backD [OF x fx,
        of "CHR '','' # intersperse '','' (map json_to_string xs) @ CHR '']'' # rest"]
    show ?thesis by (simp add: n read_elems.simps(2))
  qed
qed

lemma read_members_quote:
  "read_members (Suc n) (quote k @ CHR '':'' # s)
   = (case read_value n s of
        None \<Rightarrow> None
      | Some (v, r) \<Rightarrow>
          (case r of
             [] \<Rightarrow> None
           | d # r' \<Rightarrow>
               if d = CHR '','' then map_option (apfst ((#) (k, v))) (read_members n r')
               else if d = CHR ''}'' then Some ([(k, v)], r')
               else None))"
  by (subst quote_Cons) (simp add: read_members.simps(2) read_string_quote)

lemma read_members_back:
  assumes "\<And>k v. (k, v) \<in> set m \<Longrightarrow> reads_back v" and "m \<noteq> []"
    and "sum_list (map (\<lambda>(k, v). Suc (fuel_of v)) m) \<le> n"
  shows "read_members n
           (intersperse '','' (map (\<lambda>(k, v). quote k @ '':'' @ json_to_string v) m)
            @ CHR ''}'' # rest)
         = Some (m, rest)"
  using assms
proof (induction m arbitrary: n)
  case Nil
  then show ?case by simp
next
  case (Cons p m)
  obtain k v where p: "p = (k, v)" by (cases p)
  from Cons.prems(3) p obtain n' where n: "n = Suc n'" by (cases n) auto
  with Cons.prems(3) p have fv: "fuel_of v \<le> n'"
    and fm: "sum_list (map (\<lambda>(k, v). Suc (fuel_of v)) m) \<le> n'" by simp_all
  have v: "reads_back v" by (rule Cons.prems(1) [of k]) (simp add: p)
  note key = read_members_quote [of n' k "json_to_string v @ s" for s]
  show ?case
  proof (cases m)
    case Nil
    with reads_backD [OF v fv, of "CHR ''}'' # rest"] key [of "CHR ''}'' # rest"]
    show ?thesis by (simp add: n p)
  next
    case (Cons q qs)
    let ?tl = "intersperse '','' (map (\<lambda>(k, v). quote k @ '':'' @ json_to_string v) m)
               @ CHR ''}'' # rest"
    have "read_members n' ?tl = Some (m, rest)"
      using Cons.prems(1) Cons fm by (intro Cons.IH) auto
    with Cons reads_backD [OF v fv, of "CHR '','' # ?tl"] key [of "CHR '','' # ?tl"]
    show ?thesis by (simp add: n p)
  qed
qed

lemma read_value_array:
  assumes "\<And>x. x \<in> set xs \<Longrightarrow> reads_back x" and "fuel_of (JArray xs) \<le> n"
  shows "read_value n (json_to_string (JArray xs) @ rest) = Some (JArray xs, rest)"
proof (cases xs)
  case Nil
  with assms(2) show ?thesis by (cases n) (simp_all add: read_value.simps(2))
next
  case (Cons y ys)
  from assms(2) obtain m where n: "n = Suc m"
    and m: "sum_list (map (\<lambda>x. Suc (fuel_of x)) xs) \<le> m" by (cases n) auto
  obtain c r where c: "json_to_string y = c # r" "c \<noteq> CHR '']''"
    using json_to_string_Cons by blast
  let ?body = "intersperse '','' (map json_to_string xs) @ CHR '']'' # rest"
  from Cons c obtain r' where body: "?body = c # r'" by (cases ys) auto
  have "read_elems m ?body = Some (xs, rest)"
    using assms(1) Cons m by (intro read_elems_back) simp_all
  with body c(2) show ?thesis by (simp add: n read_value.simps(2))
qed

lemma read_value_object:
  assumes "\<And>k v. (k, v) \<in> set m \<Longrightarrow> reads_back v" and "fuel_of (JObject m) \<le> n"
  shows "read_value n (json_to_string (JObject m) @ rest) = Some (JObject m, rest)"
proof (cases m)
  case Nil
  with assms(2) show ?thesis by (cases n) (simp_all add: read_value.simps(2))
next
  case (Cons p ps)
  from assms(2) obtain n' where n: "n = Suc n'"
    and m: "sum_list (map (\<lambda>(k, v). Suc (fuel_of v)) m) \<le> n'" by (cases n) auto
  let ?body = "intersperse '','' (map (\<lambda>(k, v). quote k @ '':'' @ json_to_string v) m)
               @ CHR ''}'' # rest"
  from Cons obtain r' where body: "?body = CHR 0x22 # r'"
    by (cases p; cases ps) (auto simp: quote_def)
  have "read_members n' ?body = Some (m, rest)"
    using assms(1) Cons m by (intro read_members_back) simp_all
  with body show ?thesis by (simp add: n read_value.simps(2))
qed

lemma reads_back_all: "reads_back j"
proof (induction j)
  case (JArray xs)
  show ?case unfolding reads_back_def
    by (intro allI impI read_value_array [OF JArray])
next
  case (JObject m)
  have m: "\<And>k v. (k, v) \<in> set m \<Longrightarrow> reads_back v"
    by (rule JObject) (auto simp: snds.simps)
  show ?case unfolding reads_back_def
    by (intro allI impI read_value_object [OF m])
next
  case (JNumber i)
  show ?case by (rule reads_backI) (simp add: read_value_int_to_string)
next
  case (JString s)
  show ?case by (rule reads_backI) (simp add: read_value_quote)
qed (rule reads_backI, simp add: read_value.simps(2))+

section \<open>The fuel the text provides\<close>

lemma sum_list_Suc_length_intersperse:
  "xs \<noteq> [] \<Longrightarrow> sum_list (map (\<lambda>x. Suc (length x)) xs) = Suc (length (intersperse [c] xs))"
  by (induction "[c]" xs rule: intersperse.induct) simp_all

lemma sum_list_fuel_le:
  assumes "\<And>x. x \<in> set xs \<Longrightarrow> f x \<le> length (g x)"
  shows "sum_list (map (\<lambda>x. Suc (f x)) xs) \<le> Suc (length (intersperse [c] (map g xs)))"
proof (cases xs)
  case Nil
  then show ?thesis by simp
next
  case (Cons y ys)
  have "sum_list (map (\<lambda>x. Suc (f x)) xs) \<le> sum_list (map (\<lambda>x. Suc (length (g x))) xs)"
    using assms by (intro sum_list_mono) simp
  also have "\<dots> = sum_list (map (\<lambda>x. Suc (length x)) (map g xs))"
    by (simp add: comp_def)
  also from Cons have "\<dots> = Suc (length (intersperse [c] (map g xs)))"
    by (intro sum_list_Suc_length_intersperse) simp
  finally show ?thesis .
qed

lemma fuel_of_le_length: "fuel_of j \<le> length (json_to_string j)"
proof (induction j)
  case (JArray xs)
  have "sum_list (map (\<lambda>x. Suc (fuel_of x)) xs)
        \<le> Suc (length (intersperse '','' (map json_to_string xs)))"
    using JArray by (intro sum_list_fuel_le) simp
  then show ?case by simp
next
  case (JObject m)
  have "sum_list (map (\<lambda>p. Suc (fuel_of (snd p))) m)
        \<le> Suc (length (intersperse '',''
             (map (\<lambda>p. quote (fst p) @ '':'' @ json_to_string (snd p)) m)))"
  proof (intro sum_list_fuel_le)
    fix p assume "p \<in> set m"
    then have "fuel_of (snd p) \<le> length (json_to_string (snd p))"
      by (intro JObject) (auto simp: snds.simps)
    then show "fuel_of (snd p) \<le> length (quote (fst p) @ '':'' @ json_to_string (snd p))"
      by simp
  qed
  then show ?case by (simp add: split_def)
qed (simp_all add: Suc_le_eq)

section \<open>Reading a whole text\<close>

lemma json_read_json_to_string: "json_read (json_to_string j) = Some j"
proof -
  have "fuel_of j \<le> Suc (length (json_to_string j))"
    using fuel_of_le_length [of j] by simp
  from reads_backD [OF reads_back_all this, of "[]"] show ?thesis
    by (simp add: json_read_def)
qed

lemma json_to_string_inj: "json_to_string a = json_to_string b \<longleftrightarrow> a = b"
proof
  assume "json_to_string a = json_to_string b"
  then have "json_read (json_to_string a) = json_read (json_to_string b)" by simp
  then show "a = b" by (simp add: json_read_json_to_string)
qed simp

lemma quote_inj: "quote s = quote t \<longleftrightarrow> s = t"
  using json_to_string_inj [of "JString s" "JString t"] by simp

lemma json_read_example:
  "json_read ''{'' = None \<and> json_read ''01'' = None \<and> json_read ''[1,]'' = None \<and>
   json_read ''[1,-2,true,null,[],{}]''
     = Some (JArray [JNumber 1, JNumber (- 2), JBool True, JNull, JArray [], JObject []])"
  by (simp add: json_read_eval)

end
