(* ===== verification/Spec2Isabelle.thy ===== *)
theory Spec2Isabelle
  imports Tx_Event Event_Conversions Event_Attributes Parse_Loop Attributes_Spec Iteration_Order
    Json_Reader
begin

text \<open>
  \<^bold>\<open>Verification of the ledger event model\<close> (\<^verbatim>\<open>src/shared/src/ledger/events.rs\<close>).

  \<^bold>\<open>The program.\<close> The file is the event-notification model of a ledger node. An
  \<^verbatim>\<open>Event\<close> has a type (\<^verbatim>\<open>EventType\<close>: accepted, applied, IBC with a sub-type string,
  proposal), a level (\<^verbatim>\<open>EventLevel\<close>: block or transaction) and a map from attribute
  names to string values. Events are built from a decoded transaction and a block
  height (\<^verbatim>\<open>Event::new_tx_event\<close>), from an IBC effect or from a governance proposal
  effect (\<^verbatim>\<open>From\<close> conversions), filled through the indexing operators, and converted
  to the wire event of the consensus engine. On the other side of the wire a
  subscriber parses the JSON of a response back into an attribute map
  (\<^verbatim>\<open>TryFrom<&serde_json::Value> for Attributes\<close>) and consumes it with \<^verbatim>\<open>get\<close> and
  \<^verbatim>\<open>take\<close>.

  \<^bold>\<open>The theories\<close>, in the order in which they build on each other:
  \<^item> \<^verbatim>\<open>Events_Prelude\<close>: the representation of \<^verbatim>\<open>HashMap<String, String>\<close> as an
    association list with distinct keys (\<open>hm_inv\<close>, \<open>hm_keys\<close>; insertion is
    \<open>AList.update\<close>, removal \<open>AList.delete\<close>, lookup \<open>map_of\<close>), panics and failures as
    sum types (\<open>panic\<close>, \<open>failure\<close>, \<open>unwrap\<close>, \<open>ok_or\<close>, \<open>unwrap_err\<close>, \<open>and_then\<close>) and the
    fact collections \<open>hm_simps\<close>, \<open>hm_invs\<close>, \<open>event_defs\<close>.
  \<^item> \<^verbatim>\<open>Display_Fmt\<close>: \<^verbatim>\<open>u64::to_string\<close> (\<open>u64_to_string\<close>, by the digit loop
    \<open>dec_digits\<close>) and the reference reader \<open>read_u64\<close>; the rendering is non-empty,
    all digits, at most twenty characters and inverted by the reader.
  \<^item> \<^verbatim>\<open>Tx_Types\<close>: what the constructor uses of a transaction (\<open>TxType\<close>, the record
    scheme \<open>Tx\<close>, \<open>update_header\<close>) and of a hash (\<open>hash_to_string\<close>, two upper-case
    hexadecimal digits a byte, with the reference reader \<open>read_hash\<close>).
  \<^item> \<^verbatim>\<open>Serde_Json\<close>: \<^verbatim>\<open>serde_json::Value\<close> as the datatype \<open>json\<close>, \<^verbatim>\<open>Value::get\<close>,
    \<^verbatim>\<open>from_value\<close> at the two types the parser uses, and the compact serialiser
    \<open>json_to_string\<close>.
  \<^item> \<^verbatim>\<open>Json_Reader\<close>: a reference reader of JSON text (\<open>read_string\<close>, \<open>read_number\<close>,
    \<open>read_value\<close> with \<open>read_elems\<close> and \<open>read_members\<close>, \<open>json_read\<close>), against which the
    serialiser is judged.
  \<^item> \<^verbatim>\<open>Ledger_Event\<close>: \<open>EventLevel\<close>, \<open>EventType\<close>, \<open>Event\<close>; \<open>fmt\<close> (\<^verbatim>\<open>Display for
    EventType\<close>); \<open>contains_key\<close>, \<open>get\<close> (\<^verbatim>\<open>impl Event\<close>); \<open>index\<close> (\<^verbatim>\<open>Index\<close>), \<open>index_mut\<close>
    (\<^verbatim>\<open>IndexMut\<close>), \<open>index_assign\<close> (the statement \<^verbatim>\<open>event[k] = v\<close>); \<open>event_eq\<close> (the
    derived \<^verbatim>\<open>PartialEq\<close>); the invariant \<open>wf_event\<close> and the abstract events \<open>AEvent\<close>
    with \<open>abs_event\<close>, \<open>a_set\<close>, \<open>a_touch\<close>.
  \<^item> \<^verbatim>\<open>Tx_Event\<close>: \<open>new_tx_event\<close> (\<^verbatim>\<open>Event::new_tx_event\<close>), with \<^verbatim>\<open>Tx::header_hash\<close> and
    \<^verbatim>\<open>RawHeader::default()\<close> as parameters.
  \<^item> \<^verbatim>\<open>Event_Attributes\<close>: \<open>Attributes\<close> with \<open>get_attr\<close> and \<open>take_attr\<close>, \<open>Error\<close> with
    \<open>error_to_string\<close>, and \<open>try_from\<close> with its loop \<open>parse_attrs\<close> and loop body
    \<open>parse_attr\<close>; the specification \<open>pair_of\<close>, \<open>pairs_of\<close>, \<open>insert_all\<close>.
  \<^item> \<^verbatim>\<open>Event_Conversions\<close>: \<open>from_ibc_event\<close>, \<open>from_proposal_event\<close>, \<open>from_event\<close> (the
    three \<^verbatim>\<open>From\<close> implementations) over the records \<open>IbcEvent\<close>, \<open>ProposalEvent\<close>,
    \<open>EventAttribute\<close>, \<open>AbciEvent\<close>; the JSON shape of a wire event (\<open>attr_json\<close>,
    \<open>abci_event_json\<close>) and the round trip of an event over the wire.
  \<^item> \<^verbatim>\<open>Parse_Loop\<close>: the loop of \<open>try_from\<close> as the state machine the program runs
    (\<open>loop_state\<close>, \<open>control\<close>, \<open>loop_step\<close>, \<open>loop_rel\<close>, \<open>reach\<close>), the loop as
    \<open>while_option\<close> (\<open>loop_while\<close>) and the conversion run that way (\<open>try_from_loop\<close>).
  \<^item> \<^verbatim>\<open>Attributes_Spec\<close>: the reference specification \<open>try_from_spec\<close> of the conversion
    and the shapes of JSON values (\<open>jty\<close>, \<open>has_type\<close>, \<open>subtype\<close>, \<open>payload_ty\<close>,
    \<open>wire_ty\<close>).
  \<^item> \<^verbatim>\<open>Iteration_Order\<close>: association lists with distinct keys up to permutation,
    by multisets, and the wire event up to the order of its attributes.
  \<^item> this theory: the events the module can build (\<open>built\<close>), runs of builder operations on an event
    (\<open>event_op\<close>, \<open>event_step\<close>, \<open>event_run\<close>, with the abstract step \<open>a_step\<close>), runs of
    subscriber operations on a parsed attribute map (\<open>attr_op\<close>, \<open>attr_step\<close>,
    \<open>attr_run\<close>, with the abstract steps \<open>a_attr_step\<close> and runs \<open>a_attr_run\<close> on a partial
    function), and the properties that span components.

  \<^bold>\<open>How the model corresponds to the code.\<close> Every function of the file is one
  definition with the source's name (\<open>get_attr\<close>, \<open>take_attr\<close> and the three \<open>from_\<close>
  conversions are renamed because Rust overloads \<^verbatim>\<open>get\<close>, \<^verbatim>\<open>take\<close> and \<^verbatim>\<open>from\<close>).
  Mutation of \<^verbatim>\<open>&mut self\<close> is explicit state passing: the operation returns the new
  value. A panic (\<^verbatim>\<open>unreachable!()\<close>, a failed \<^verbatim>\<open>unwrap()\<close>, indexing a missing key) is
  the left injection of a sum, as is an \<^verbatim>\<open>Err\<close>; the \<^verbatim>\<open>?\<close> operator is \<open>and_then\<close>. The
  \<^verbatim>\<open>for\<close> loop of the parser is modelled twice: as structural recursion over the array
  (\<open>parse_attrs\<close>), which needs no fuel, and as a state machine run by \<open>while_option\<close>
  (\<open>loop_while\<close>), whose result is an \<open>option\<close>; the two are proved equal, and the loop
  is proved to return within one step for each record and one more, so no bound
  has to be chosen. The only other loop, the digit loop of the decimal rendering,
  terminates because its argument is divided by ten. The block height is a
  \<open>64 word\<close>. The reference reader of JSON text recurses on a fuel argument;
  \<open>json_read\<close> gives it one unit more than the text has characters, and
  \<open>fuel_of_le_length\<close> shows that every text the serialiser writes needs no more, so
  that running out of fuel cannot be the reason why such a text is refused.

  \<^bold>\<open>Iteration order.\<close> Rust does not specify the order in which a hash map iterates.
  The association list fixes one order for each map value, and the theorems are
  stated through lookups, key sets and lengths, so that they hold for every order.
  There is one exception: \<open>from_event_eq_iff\<close> compares two wire events as lists of
  attributes, that is, for the iteration order the model fixes; its counterpart
  for every order is \<open>from_event_order_independent\<close>. That the keys of an association
  list are distinct (\<open>hm_inv\<close>, \<open>wf_event\<close>) is an invariant of this representation, not
  a behaviour of the program, since a Rust hash map cannot hold a key twice; it is
  proved as a lemma for every event the module builds (\<open>built_wf_event\<close>) and is a
  hypothesis only where a theorem quantifies over all lists. The helper lemmas
  that mention a concrete list (\<open>new_tx_event_ok\<close>) are used for evaluation only.

  \<^bold>\<open>What the lemmas show.\<close>
  \<^item> Accessors: \<open>index_mut\<close> cannot panic; assignment then lookup returns the value
    written; \<open>index\<close> panics exactly on a missing key; every operation keeps \<open>wf_event\<close>
    and refines the update of a partial function; \<open>event_eq\<close> decides equality of
    abstract events; \<open>fmt\<close> is injective up to \<^verbatim>\<open>Ibc\<close> sub-types that spell another
    type.
  \<^item> Constructor: the result of \<open>new_tx_event\<close> on every input, the panic exactly on
    raw headers, the round trips of the \<^verbatim>\<open>height\<close> and \<^verbatim>\<open>hash\<close> attributes with their
    lengths, the independence of the applied event from the decrypted header, and
    that the applied hash equals the wrapper hash only when the header hash
    collides on the wrapper header and the default raw header.
  \<^item> Conversions: identity on the payload of IBC and proposal effects, the shape of
    the wire event, and what the wire event forgets.
  \<^item> Parser: the exact condition of each error and of the panic on ill-typed input,
    first-failure and last-write-wins behaviour, soundness of error contexts,
    that the error messages determine the error, and the contract of \<^verbatim>\<open>take\<close>;
    equality with the reference specification on every input; success exactly on
    the values of the expected shape.
  \<^item> Serialisation: the reader inverts \<open>json_to_string\<close> on every value, character by
    character for the escapes, so the serialisation is injective and always within
    the reader's fuel.
  \<^item> Loop: the step relation is deterministic and agrees with the step function,
    every step decreases the measure and keeps the result; the loop terminates
    within \<open>length items + 1\<close> steps, every reachable state satisfies the invariant
    and leads to the one exit that carries the value of the conversion.
  \<^item> Iteration order: lists with distinct keys denote the same map exactly when
    they have the same multiset; the wire event is determined by the attribute map
    up to a permutation of its attributes.
  \<^item> Across components: a run of builder operations only inserts (the event
    contains exactly its old keys and the keys accessed, and an access without a
    write creates the empty string and changes no value that is there); such a run
    never panics, refines the fold of updates of a partial
    function, keeps type and level, and leaves each key with the value of its last
    assignment (the constructor \<open>new_tx_event\<close> is such a run of three
    assignments); a run of subscriber operations refines the same run on the
    partial function the parsed map denotes; an event sent
    over the wire and parsed back yields its attribute map, in whatever order the
    attributes travel, also when the payload travels as text; the context of a
    parse error reads back as the record of the array that caused it; the JSON of
    a wire event has the shape the parser expects; a
    subscriber reads the block height of a transaction event back from the parsed
    attributes; a run of \<^verbatim>\<open>take\<close> operations hands out each value at most once, and
    taking every key once drains the map; and, end to end, a subscriber that drains
    the parsed text of the wire event of a built event receives exactly the values
    the node stored.

  \<^bold>\<open>Not modelled.\<close> Every type, function and trait implementation that is written in
  the file has its definition here; the lines of the file without one are its
  imports. What is left out is generated from the file by external macros or lies
  outside it:
  \<^item> The derived \<^verbatim>\<open>BorshSerialize\<close> and \<^verbatim>\<open>BorshDeserialize\<close>: the code is generated by
    a macro of the \<^verbatim>\<open>borsh\<close> crate and is not in the repository; the byte format, the
    handling of lengths and the order in which a map is written are decided by
    that crate and its version, so a model could not be compared with the source.
  \<^item> The derived \<^verbatim>\<open>Clone\<close> and \<^verbatim>\<open>Debug\<close>: a clone is the value itself in a
    value-passing model, and the debug rendering is not used by the file.
  \<^item> The submodule \<^verbatim>\<open>log\<close>, declared in the file and defined elsewhere.
  \<^item> The hash function and the content of transaction headers: \<open>new_tx_event\<close>
    takes \<^verbatim>\<open>Tx::header_hash\<close> and \<^verbatim>\<open>RawHeader::default()\<close> as parameters and the theorems
    hold for every choice.
  \<^item> Floating-point JSON numbers, which the parser never inspects.
  \<^item> The transport that carries wire events to subscribers: \<open>abci_event_json\<close> is
    the shape the specification gives for its payload.
  \<^item> UTF-8: a Rust \<^verbatim>\<open>String\<close> is modelled as a list of characters, and no operation
    of the file looks inside a string.
\<close>

section \<open>The events the module can build\<close>

inductive built :: "Event \<Rightarrow> bool" where
  built_new: "built \<lparr>event_type = t, level = l, attributes = []\<rparr>"
| built_ibc: "hm_inv (ibc_attributes i) \<Longrightarrow> built (from_ibc_event i)"
| built_proposal: "hm_inv (proposal_attributes p) \<Longrightarrow> built (from_proposal_event p)"
| built_index_mut: "built e \<Longrightarrow> index_mut e k = Inr e' \<Longrightarrow> built e'"
| built_assign: "built e \<Longrightarrow> index_assign e k v = Inr e' \<Longrightarrow> built e'"

section \<open>Runs of subscriber operations\<close>

datatype attr_op = Get string | Take string

fun attr_step :: "Attributes \<Rightarrow> attr_op \<Rightarrow> string option \<times> Attributes" where
  "attr_step a (Get k) = (get_attr a k, a)"
| "attr_step a (Take k) = take_attr a k"

fun attr_run :: "Attributes \<Rightarrow> attr_op list \<Rightarrow> string option list \<times> Attributes" where
  "attr_run a [] = ([], a)"
| "attr_run a (op # ops) =
     (let (r, a') = attr_step a op; (rs, a'') = attr_run a' ops in (r # rs, a''))"

declare attr_run.simps(2) [simp del]

fun a_attr_step ::
  "(string \<rightharpoonup> string) \<Rightarrow> attr_op \<Rightarrow> string option \<times> (string \<rightharpoonup> string)" where
  "a_attr_step m (Get k) = (m k, m)"
| "a_attr_step m (Take k) = (m k, m(k := None))"

fun a_attr_run ::
  "(string \<rightharpoonup> string) \<Rightarrow> attr_op list \<Rightarrow> string option list \<times> (string \<rightharpoonup> string)" where
  "a_attr_run m [] = ([], m)"
| "a_attr_run m (op # ops) =
     (let (r, m') = a_attr_step m op; (rs, m'') = a_attr_run m' ops in (r # rs, m''))"

section \<open>Runs of builder operations\<close>

datatype event_op = Touch string | Assign string string

fun op_key :: "event_op \<Rightarrow> string" where
  "op_key (Touch k) = k"
| "op_key (Assign k v) = k"

fun event_step :: "Event \<Rightarrow> event_op \<Rightarrow> panic + Event" where
  "event_step e (Touch k) = index_mut e k"
| "event_step e (Assign k v) = index_assign e k v"

fun event_run :: "Event \<Rightarrow> event_op list \<Rightarrow> panic + Event" where
  "event_run e [] = Inr e"
| "event_run e (op # ops) = and_then (event_step e op) (\<lambda>e'. event_run e' ops)"

fun a_step :: "AEvent \<Rightarrow> event_op \<Rightarrow> AEvent" where
  "a_step a (Touch k) = a_touch a k"
| "a_step a (Assign k v) = a_set a k v"

section \<open>Lemmas on the payload\<close>

lemma try_from_text_of_wire:
  "map_option try_from (json_read (json_to_string (abci_event_json w)))
   = Some (Inr (Attributes (insert_all (wire_pairs w) [])))"
  by (simp add: json_read_json_to_string try_from_abci_event_json)

lemma parse_attr_Err_reads_back:
  assumes "parse_attr bad m = Inl (Err e)"
  shows "\<exists>s. (e = MissingKey s \<or> e = MissingValue s) \<and> json_read s = Some bad \<and>
             record_failure bad = Err e"
  using parse_attr_Inl_cases [OF assms]
  by (auto simp: json_read_json_to_string record_failure_def)

section \<open>Lemmas on built events\<close>

lemma built_wf_event: "built e \<Longrightarrow> wf_event e"
proof (induction rule: built.induct)
  case (built_index_mut e k e')
  then show ?case by (blast intro: wf_event_index_mut)
next
  case (built_assign e k v e')
  then show ?case by (blast intro: wf_event_index_assign)
qed simp_all

lemma built_update:
  "built e \<Longrightarrow> built (e\<lparr>attributes := AList.update k v (attributes e)\<rparr>)"
  by (erule built_assign [where k = k and v = v]) simp

lemma built_new_tx_event:
  assumes "new_tx_event hh rd tx h = Inr ev"
  shows "built ev"
proof -
  let ?ea = "\<lparr>event_type = tx_event_type (header tx), level = Tx, attributes = []\<rparr>"
  let ?s = "hash_to_string (hh (hashed_tx rd tx))"
  from assms have ev: "ev = ?ea\<lparr>attributes := tx_attrs ?s h\<rparr>"
    by (simp add: new_tx_event_Inr_iff)
  have "built ?ea" by (rule built_new)
  then have "built (?ea\<lparr>attributes := AList.update ''hash'' ?s (attributes ?ea)\<rparr>)"
    (is "built ?eb") by (rule built_update)
  then have "built (?eb\<lparr>attributes := AList.update ''height'' (u64_to_string h) (attributes ?eb)\<rparr>)"
    (is "built ?ec") by (rule built_update)
  then have "built (?ec\<lparr>attributes := AList.update ''log'' [] (attributes ?ec)\<rparr>)"
    by (rule built_update)
  with ev show ?thesis by (simp add: tx_attrs_def)
qed

section \<open>Lemmas on runs\<close>

lemma attr_run_Cons:
  "attr_run a (op # ops) =
     (fst (attr_step a op) # fst (attr_run (snd (attr_step a op)) ops),
      snd (attr_run (snd (attr_step a op)) ops))"
  by (simp add: attr_run.simps(2) case_prod_unfold Let_def)

lemmas attr_run_simps [simp] = attr_run.simps(1) attr_run_Cons

lemma attr_step_refines:
  "fst (attr_step a op) = fst (a_attr_step (map_of (inner a)) op) \<and>
   map_of (inner (snd (attr_step a op))) = snd (a_attr_step (map_of (inner a)) op)"
  by (cases op) (simp_all add: get_attr_def take_attr_def delete_conv')

lemma attr_run_length: "length (fst (attr_run a ops)) = length ops"
  by (induction ops arbitrary: a) simp_all

lemma attr_step_wf: "wf_attributes a \<Longrightarrow> wf_attributes (snd (attr_step a op))"
  by (cases op) simp_all

lemma attr_run_wf: "wf_attributes a \<Longrightarrow> wf_attributes (snd (attr_run a ops))"
proof (induction ops arbitrary: a)
  case Nil
  then show ?case by simp
next
  case (Cons op ops)
  from Cons.prems have "wf_attributes (snd (attr_step a op))" by (rule attr_step_wf)
  then have "wf_attributes (snd (attr_run (snd (attr_step a op)) ops))" by (rule Cons.IH)
  then show ?case by simp
qed

lemma attr_step_keys: "hm_keys (inner (snd (attr_step a op))) \<subseteq> hm_keys (inner a)"
  by (cases op) (auto simp: inner_take_attr)

lemma attr_step_absent:
  "k \<notin> hm_keys (inner a) \<Longrightarrow> k \<notin> hm_keys (inner (snd (attr_step a op)))"
  using attr_step_keys [of a op] by blast

lemma attr_run_absent:
  "k \<notin> hm_keys (inner a) \<Longrightarrow>
   \<forall>i < length ops. ops ! i \<in> {Get k, Take k} \<longrightarrow> fst (attr_run a ops) ! i = None"
proof (induction ops arbitrary: a)
  case Nil
  then show ?case by simp
next
  case (Cons op ops)
  from Cons.prems have none: "map_of (inner a) k = None"
    by (simp add: map_of_None_iff_keys)
  from Cons.prems have "k \<notin> hm_keys (inner (snd (attr_step a op)))"
    by (rule attr_step_absent)
  then have IH: "\<forall>i < length ops. ops ! i \<in> {Get k, Take k} \<longrightarrow>
      fst (attr_run (snd (attr_step a op)) ops) ! i = None"
    by (rule Cons.IH)
  show ?case
  proof (intro allI impI)
    fix i
    assume i: "i < length (op # ops)" and at: "(op # ops) ! i \<in> {Get k, Take k}"
    show "fst (attr_run a (op # ops)) ! i = None"
    proof (cases i)
      case 0
      with at none show ?thesis
        by (auto simp: get_attr_def take_attr_def)
    next
      case (Suc j)
      with i at IH show ?thesis by auto
    qed
  qed
qed

lemma attr_run_after_take:
  "j < length ops \<Longrightarrow> ops ! j \<in> {Get k, Take k} \<Longrightarrow>
   fst (attr_run (snd (take_attr a k)) ops) ! j = None"
proof -
  have "k \<notin> hm_keys (inner (snd (take_attr a k)))"
    by (simp add: inner_take_attr)
  then show "j < length ops \<Longrightarrow> ops ! j \<in> {Get k, Take k} \<Longrightarrow>
      fst (attr_run (snd (take_attr a k)) ops) ! j = None"
    using attr_run_absent by blast
qed

section \<open>Lemmas on runs of builder operations\<close>

lemma event_step_total: "\<exists>e'. event_step e op = Inr e'"
  by (cases op) (simp_all add: index_mut_eq)

lemma event_step_refines:
  "event_step e op = Inr e' \<Longrightarrow> abs_event e' = a_step (abs_event e) op"
  by (cases op) (auto simp: index_mut_refines abs_event_attributes_update)

lemma event_step_built: "built e \<Longrightarrow> event_step e op = Inr e' \<Longrightarrow> built e'"
  by (cases op) (auto intro: built_index_mut built_update)

lemma event_step_frame:
  "op_key op \<noteq> k \<Longrightarrow> event_step e op = Inr e' \<Longrightarrow> get e' k = get e k"
  by (cases op) (auto simp: index_mut_eq split: if_splits)

lemma event_step_contains:
  "event_step e op = Inr e' \<Longrightarrow> contains_key e' k \<longleftrightarrow> contains_key e k \<or> k = op_key op"
  by (cases op) (auto simp: index_mut_eq contains_key_get split: if_splits)

lemma event_step_unassigned:
  "event_step e op = Inr e' \<Longrightarrow> \<forall>v. op \<noteq> Assign k v \<Longrightarrow>
   get e' k = (if op = Touch k \<and> \<not> contains_key e k then Some [] else get e k)"
  by (cases op) (auto simp: index_mut_eq split: if_splits)

lemma event_step_type_level:
  "event_step e op = Inr e' \<Longrightarrow> event_type e' = event_type e \<and> level e' = level e"
  by (cases op) (auto simp: index_mut_eq split: if_splits)

lemma event_run_induct [case_names Nil Step]:
  assumes "\<And>e. P e []"
    and "\<And>e op ops e1. event_step e op = Inr e1 \<Longrightarrow> P e1 ops \<Longrightarrow> P e (op # ops)"
  shows "P e ops"
proof (induction ops arbitrary: e)
  case Nil
  show ?case by (rule assms(1))
next
  case (Cons op ops)
  obtain e1 where "event_step e op = Inr e1" using event_step_total by blast
  then show ?case using Cons.IH by (rule assms(2))
qed

lemma event_run_append:
  "event_run e (ops @ ops') = and_then (event_run e ops) (\<lambda>e'. event_run e' ops')"
  by (induction e ops rule: event_run_induct) simp_all

lemma event_run_total: "\<exists>e'. event_run e ops = Inr e'"
  by (induction e ops rule: event_run_induct) simp_all

lemma event_run_built: "built e \<Longrightarrow> event_run e ops = Inr e' \<Longrightarrow> built e'"
  by (induction e ops rule: event_run_induct) (simp_all add: event_step_built)

lemma event_run_frame:
  "\<forall>op \<in> set ops. op_key op \<noteq> k \<Longrightarrow> event_run e ops = Inr e' \<Longrightarrow> get e' k = get e k"
  by (induction e ops rule: event_run_induct) (auto dest: event_step_frame)

lemma new_tx_event_as_run:
  "\<not> is_Raw (header tx) \<Longrightarrow>
   new_tx_event hh rd tx h =
     event_run \<lparr>event_type = tx_event_type (header tx), level = Tx, attributes = []\<rparr>
       [Assign ''hash'' (hash_to_string (hh (hashed_tx rd tx))),
        Assign ''height'' (u64_to_string h), Assign ''log'' []]"
  by (simp add: new_tx_event_ok tx_attrs_def)

section \<open>Lemmas on shapes and on draining runs\<close>

lemma has_type_abci_event_json: "has_type wire_ty (abci_event_json w)"
  by (simp add: wire_ty_def abci_event_json_def attr_json_def list_all_iff)

lemma hm_keys_empty_iff: "hm_keys xs = {} \<longleftrightarrow> xs = []"
  by (simp add: hm_keys_def)

lemma attr_run_take_all:
  "distinct ks \<Longrightarrow> hm_keys (inner a) \<subseteq> set ks \<Longrightarrow>
   fst (attr_run a (map Take ks)) = map (get_attr a) ks \<and>
   inner (snd (attr_run a (map Take ks))) = []"
proof (induction ks arbitrary: a)
  case Nil
  then show ?case by (simp add: hm_keys_empty_iff)
next
  case (Cons k ks)
  let ?a = "snd (take_attr a k)"
  from Cons.prems have "hm_keys (inner ?a) \<subseteq> set ks"
    by (auto simp: inner_take_attr)
  with Cons.prems have IH: "fst (attr_run ?a (map Take ks)) = map (get_attr ?a) ks \<and>
      inner (snd (attr_run ?a (map Take ks))) = []"
    by (intro Cons.IH) simp_all
  from Cons.prems have "map (get_attr ?a) ks = map (get_attr a) ks"
    by (intro map_cong refl get_attr_take_attr_other) auto
  with IH show ?case by simp
qed

section \<open>Properties across components\<close>

text \<open>C22: The builder operations only insert. After a run of accesses through
  \<^verbatim>\<open>IndexMut\<close> and assignments \<^verbatim>\<open>event[k] = v\<close>, which never panics, the event contains
  exactly the keys it contained before and the keys the run has accessed: no key is
  ever removed. A key to which the run assigns nothing keeps its value if it was
  present, holds the empty string if it was absent and the run has accessed it, and
  is absent otherwise: an access without a write creates the empty string and never
  changes a value that is there.\<close>
theorem event_run_only_inserts:
  "\<exists>e'. event_run e ops = Inr e' \<and>
        (\<forall>k. contains_key e' k \<longleftrightarrow> contains_key e k \<or> k \<in> op_key ` set ops) \<and>
        (\<forall>k. (\<forall>v. Assign k v \<notin> set ops) \<longrightarrow>
             get e' k = (if contains_key e k then get e k
                         else if Touch k \<in> set ops then Some [] else None))"
proof (induction e ops rule: event_run_induct)
  case (Nil e)
  show ?case by (simp add: contains_key_get)
next
  case (Step e op ops e1)
  from Step.IH obtain e' where run: "event_run e1 ops = Inr e'"
    and keys: "\<And>k. contains_key e' k \<longleftrightarrow> contains_key e1 k \<or> k \<in> op_key ` set ops"
    and vals: "\<And>k. (\<forall>v. Assign k v \<notin> set ops) \<Longrightarrow>
        get e' k = (if contains_key e1 k then get e1 k
                    else if Touch k \<in> set ops then Some [] else None)"
    by blast
  note step = event_step_contains [OF Step.hyps] event_step_unassigned [OF Step.hyps]
  from Step.hyps run have "event_run e (op # ops) = Inr e'" by simp
  moreover have "\<And>k. contains_key e' k \<longleftrightarrow> contains_key e k \<or> k \<in> op_key ` set (op # ops)"
    by (auto simp: keys step(1))
  moreover have "\<And>k. (\<forall>v. Assign k v \<notin> set (op # ops)) \<Longrightarrow>
      get e' k = (if contains_key e k then get e k
                  else if Touch k \<in> set (op # ops) then Some [] else None)"
  proof -
    fix k
    assume no: "\<forall>v. Assign k v \<notin> set (op # ops)"
    then have "\<forall>v. op \<noteq> Assign k v" "\<forall>v. Assign k v \<notin> set ops" by auto
    from step(2) [OF this(1)] step(1) [of k] vals [OF this(2)] show
      "get e' k = (if contains_key e k then get e k
                   else if Touch k \<in> set (op # ops) then Some [] else None)"
      by (cases "op = Touch k") (auto simp: contains_key_get)
  qed
  ultimately show ?case by blast
qed

theorem event_run_only_inserts_witness:
  "\<exists>e'. event_run \<lparr>event_type = Applied, level = Tx, attributes = [(''log'', ''x'')]\<rparr>
          [Touch ''log'', Assign ''hash'' ''AB'', Touch ''height''] = Inr e' \<and>
        contains_key e' ''hash'' \<and> \<not> contains_key e' ''code'' \<and>
        get e' ''log'' = Some ''x'' \<and> get e' ''height'' = Some [] \<and> get e' ''code'' = None"
proof -
  let ?e = "\<lparr>event_type = Applied, level = Tx, attributes = [(''log'', ''x'')]\<rparr>"
  let ?ops = "[Touch ''log'', Assign ''hash'' ''AB'', Touch ''height'']"
  from event_run_only_inserts [of ?e ?ops] obtain e' where
    run: "event_run ?e ?ops = Inr e'"
    and keys: "\<And>k. contains_key e' k \<longleftrightarrow> contains_key ?e k \<or> k \<in> op_key ` set ?ops"
    and vals: "\<And>k. (\<forall>v. Assign k v \<notin> set ?ops) \<Longrightarrow>
        get e' k = (if contains_key ?e k then get ?e k
                    else if Touch k \<in> set ?ops then Some [] else None)"
    by blast
  from keys [of "''hash''"] keys [of "''code''"]
    vals [of "''log''"] vals [of "''height''"] vals [of "''code''"]
  have "contains_key e' ''hash'' \<and> \<not> contains_key e' ''code'' \<and>
      get e' ''log'' = Some ''x'' \<and> get e' ''height'' = Some [] \<and> get e' ''code'' = None"
    by (simp add: contains_key_def get_def)
  with run show ?thesis by blast
qed

text \<open>C21: A subscriber that parses the wire form of a transaction event reads back
  the block height and the hash the event was built from, finds the empty \<^verbatim>\<open>log\<close>,
  and sees the wire type \<^verbatim>\<open>accepted\<close> for a wrapper transaction and \<^verbatim>\<open>applied\<close>
  otherwise.\<close>
theorem tx_event_over_the_wire:
  assumes "new_tx_event hh rd tx h = Inr ev"
  shows "\<exists>a. try_from (abci_event_json (from_event ev)) = Inr a \<and>
             Option.bind (get_attr a ''height'') read_u64 = Some h \<and>
             Option.bind (get_attr a ''hash'') read_hash = Some (hh (hashed_tx rd tx)) \<and>
             get_attr a ''log'' = Some [] \<and>
             abci_type (from_event ev) =
               (if is_Wrapper (header tx) then ''accepted'' else ''applied'')"
  using assms
  by (auto simp: new_tx_event_Inr_iff try_from_abci_event_json get_attr_def
      tx_attrs_def tx_event_type_def)

theorem tx_event_over_the_wire_witness:
  "\<exists>a. try_from (abci_event_json (from_event
          \<lparr>event_type = Accepted, level = Tx, attributes = tx_attrs ''0A'' 300\<rparr>)) = Inr a \<and>
       Option.bind (get_attr a ''height'') read_u64 = Some 300 \<and>
       Option.bind (get_attr a ''hash'') read_hash = Some [0x0A]"
proof -
  let ?tx = "\<lparr>header = (Wrapper () :: (unit, unit, unit, unit) TxType)\<rparr>"
  let ?hh = "\<lambda>tx :: (unit, unit, unit, unit) Tx. [0x0A :: byte]"
  have "new_tx_event ?hh () ?tx 300 =
      Inr \<lparr>event_type = Accepted, level = Tx, attributes = tx_attrs ''0A'' 300\<rparr>"
    by (simp add: new_tx_event_ok tx_event_type_def hash_eval)
  from tx_event_over_the_wire [OF this] show ?thesis by auto
qed

text \<open>C25: An IBC effect with distinct attribute keys that is converted to an event,
  sent over the wire and parsed back arrives with its own type string as the wire
  type and with its own attribute map.\<close>
theorem ibc_event_over_the_wire:
  assumes "hm_inv (ibc_attributes i)"
  shows "abci_type (from_event (from_ibc_event i)) = ibc_event_type i \<and>
         (\<exists>a. try_from (abci_event_json (from_event (from_ibc_event i))) = Inr a \<and>
              map_of (inner a) = map_of (ibc_attributes i))"
  using assms
  by (simp add: try_from_abci_event_json insert_all_distinct hm_inv_def)

theorem ibc_event_over_the_wire_witness:
  "abci_type (from_event (from_ibc_event
      \<lparr>ibc_event_type = ''send_packet'', ibc_attributes = [(''packet_sequence'', ''1'')]\<rparr>))
     = ''send_packet'' \<and>
   (\<exists>a. try_from (abci_event_json (from_event (from_ibc_event
      \<lparr>ibc_event_type = ''send_packet'', ibc_attributes = [(''packet_sequence'', ''1'')]\<rparr>)))
       = Inr a \<and>
      get_attr a ''packet_sequence'' = Some ''1'' \<and> get_attr a ''packet_data'' = None)"
proof -
  let ?i = "\<lparr>ibc_event_type = ''send_packet'', ibc_attributes = [(''packet_sequence'', ''1'')]\<rparr>"
  have "hm_inv (ibc_attributes ?i)" by simp
  from ibc_event_over_the_wire [OF this] obtain a where
    "abci_type (from_event (from_ibc_event ?i)) = ibc_event_type ?i"
    "try_from (abci_event_json (from_event (from_ibc_event ?i))) = Inr a"
    "map_of (inner a) = map_of (ibc_attributes ?i)"
    by blast
  then show ?thesis by (simp add: get_attr_def)
qed

text \<open>C28: In a run of \<^verbatim>\<open>get\<close> and \<^verbatim>\<open>take\<close> operations on a parsed attribute map, a
  value is handed out at most once: after a \<^verbatim>\<open>take\<close> of a key every later \<^verbatim>\<open>get\<close> or
  \<^verbatim>\<open>take\<close> of that key returns nothing. The run returns one result for each operation
  and keeps the keys distinct.\<close>
theorem attr_run_take_once:
  assumes "wf_attributes a" and "i < j" and "j < length ops"
    and "ops ! i = Take k" and "ops ! j \<in> {Get k, Take k}"
  shows "fst (attr_run a ops) ! j = None \<and>
         length (fst (attr_run a ops)) = length ops \<and>
         wf_attributes (snd (attr_run a ops))"
proof -
  have "fst (attr_run a ops) ! j = None"
    using assms(2-5)
  proof (induction ops arbitrary: a i j)
    case Nil
    then show ?case by simp
  next
    case (Cons op ops)
    from Cons.prems(1) obtain j' where j: "j = Suc j'" by (cases j) auto
    with Cons.prems have j': "j' < length ops" "ops ! j' \<in> {Get k, Take k}" by simp_all
    show ?case
    proof (cases i)
      case 0
      with Cons.prems have "op = Take k" by simp
      with j j' show ?thesis by (simp add: attr_run_after_take)
    next
      case (Suc i')
      with Cons.prems j have "i' < j'" "ops ! i' = Take k" by simp_all
      with j' have "fst (attr_run (snd (attr_step a op)) ops) ! j' = None"
        by (intro Cons.IH)
      with j show ?thesis by simp
    qed
  qed
  with assms(1) show ?thesis by (simp add: attr_run_length attr_run_wf)
qed

theorem attr_run_take_once_witness:
  "fst (attr_run (Attributes [(''hash'', ''AB'')]) [Take ''hash'', Get ''hash'', Take ''hash''])
     ! 2 = None"
proof -
  let ?a = "Attributes [(''hash'', ''AB'')]"
  let ?ops = "[Take ''hash'', Get ''hash'', Take ''hash'']"
  have "wf_attributes ?a" by (simp add: wf_attributes_def)
  from attr_run_take_once [OF this, of 0 2 ?ops "''hash''"] show ?thesis by simp
qed

text \<open>C31: A run of builder operations on an event, each of them an access through
  \<^verbatim>\<open>IndexMut\<close> or an assignment \<^verbatim>\<open>event[k] = v\<close>, never panics, and its result is the
  abstract event obtained by applying the corresponding updates of a partial
  function, in the same order, to the abstract event it started from. Type and level
  are set at construction and no operation changes them.\<close>
theorem event_run_refines:
  "\<exists>e'. event_run e ops = Inr e' \<and> abs_event e' = foldl a_step (abs_event e) ops \<and>
        event_type e' = event_type e \<and> level e' = level e"
proof (induction e ops rule: event_run_induct)
  case (Nil e)
  show ?case by simp
next
  case (Step e op ops e1)
  from Step.hyps event_step_type_level [OF Step.hyps] Step.IH show ?case
    by (auto simp: event_step_refines)
qed

text \<open>C32: The last assignment to a key decides its value: after a run in which
  \<^verbatim>\<open>event[k] = v\<close> is followed only by operations on other keys, \<^verbatim>\<open>get(k)\<close> returns
  \<open>v\<close>, whatever the run did before the assignment.\<close>
theorem event_run_last_assign:
  assumes "\<forall>op \<in> set post. op_key op \<noteq> k"
  shows "\<exists>e'. event_run e (pre @ Assign k v # post) = Inr e' \<and> get e' k = Some v"
proof -
  obtain e1 where pre: "event_run e pre = Inr e1" using event_run_total by blast
  obtain e2 where post: "event_run (e1\<lparr>attributes := AList.update k v (attributes e1)\<rparr>) post
      = Inr e2"
    using event_run_total by blast
  with assms have "get e2 k = Some v" by (simp add: event_run_frame)
  with pre post show ?thesis by (simp add: event_run_append)
qed

theorem event_run_last_assign_witness:
  "\<exists>e'. event_run \<lparr>event_type = Applied, level = Tx, attributes = []\<rparr>
          ([Assign ''log'' ''a'', Touch ''hash''] @ Assign ''log'' ''b'' # [Touch ''height''])
          = Inr e' \<and>
        get e' ''log'' = Some ''b''"
proof -
  have "\<forall>op \<in> set [Touch ''height'']. op_key op \<noteq> ''log''" by simp
  from event_run_last_assign [OF this] show ?thesis .
qed

text \<open>C18: The wire form is well typed and well-typed payloads do not go wrong: the
  JSON of every wire event has the shape of a wire event, that shape is a subtype of
  the shape the parser expects, and the parser returns an attribute collection,
  neither an error nor a panic, exactly on the values of the expected shape.\<close>
theorem wire_payload_well_typed:
  "has_type wire_ty (abci_event_json w) \<and> subtype wire_ty payload_ty \<and>
   (has_type payload_ty j \<longleftrightarrow> (\<exists>a. try_from j = Inr a))"
  by (simp add: has_type_abci_event_json subtype_wire_payload payload_type_sound)

text \<open>C17: The round trip over the wire does not depend on the order of the
  attributes: whatever order the hash map iterates in and whatever order the wire
  event lists the attributes in, parsing its JSON gives back the attribute map of the
  event, with the same keys and the same number of entries.\<close>
theorem wire_roundtrip_any_order:
  assumes "wf_event e"
    and "mset (abci_attributes w) = mset (abci_attributes (from_event e))"
  shows "\<exists>a. try_from (abci_event_json w) = Inr a \<and>
             (\<forall>k. get_attr a k = get e k) \<and>
             hm_keys (inner a) = hm_keys (attributes e) \<and>
             length (inner a) = length (attributes e) \<and>
             wf_attributes a"
proof -
  from assms(1) have inv: "hm_inv (attributes e)" by (simp add: wf_event_def)
  from assms(2) have ms: "mset (attributes e) = mset (wire_pairs w)"
    using mset_wire_pairs_cong [of w "from_event e"] by simp
  with inv have invw: "hm_inv (wire_pairs w)" using mset_eq_hm_inv [OF ms] by simp
  from inv ms have "map_of (wire_pairs w) = map_of (attributes e)" by (rule mset_eq_map_of)
  from insert_all_agrees [OF inv invw this] show ?thesis
    by (simp add: try_from_abci_event_json get_attr_def get_def wf_attributes_def)
qed

theorem wire_roundtrip_any_order_witness:
  "\<exists>a. try_from (abci_event_json \<lparr>abci_type = ''applied'', abci_attributes =
          [\<lparr>attr_key = ''log'', attr_value = [], attr_index = True\<rparr>,
           \<lparr>attr_key = ''hash'', attr_value = ''AB'', attr_index = True\<rparr>]\<rparr>) = Inr a \<and>
       get_attr a ''hash'' = Some ''AB'' \<and> get_attr a ''log'' = Some [] \<and>
       length (inner a) = 2"
proof -
  let ?e = "\<lparr>event_type = Applied, level = Tx, attributes = [(''hash'', ''AB''), (''log'', [])]\<rparr>"
  let ?w = "\<lparr>abci_type = ''applied'', abci_attributes =
          [\<lparr>attr_key = ''log'', attr_value = [], attr_index = True\<rparr>,
           \<lparr>attr_key = ''hash'', attr_value = ''AB'', attr_index = True\<rparr>]\<rparr>"
  have "wf_event ?e" by (simp add: wf_event_def)
  moreover have "mset (abci_attributes ?w) = mset (abci_attributes (from_event ?e))"
    by (simp add: from_event_def)
  ultimately obtain a where "try_from (abci_event_json ?w) = Inr a"
    "\<forall>k. get_attr a k = get ?e k" "length (inner a) = length (attributes ?e)"
    using wire_roundtrip_any_order by blast
  then show ?thesis by (auto simp: get_def)
qed

text \<open>C29: A subscriber that takes every key of a parsed attribute map once, in any
  order, receives the value of every key and leaves the map empty.\<close>
theorem take_all_drains:
  assumes "distinct ks" and "set ks = hm_keys (inner a)"
  shows "fst (attr_run a (map Take ks)) = map (get_attr a) ks \<and>
         list_all (\<lambda>r. r \<noteq> None) (fst (attr_run a (map Take ks))) \<and>
         inner (snd (attr_run a (map Take ks))) = []"
proof -
  from assms have run: "fst (attr_run a (map Take ks)) = map (get_attr a) ks \<and>
      inner (snd (attr_run a (map Take ks))) = []"
    by (intro attr_run_take_all) simp_all
  from assms(2) have "list_all (\<lambda>r. r \<noteq> None) (map (get_attr a) ks)"
    by (auto simp: list_all_iff get_attr_def hm_keys_dom)
  with run show ?thesis by simp
qed

theorem take_all_drains_witness:
  "fst (attr_run (Attributes [(''hash'', ''AB''), (''log'', [])]) [Take ''log'', Take ''hash''])
     = [Some [], Some ''AB''] \<and>
   inner (snd (attr_run (Attributes [(''hash'', ''AB''), (''log'', [])])
     [Take ''log'', Take ''hash''])) = []"
proof -
  let ?a = "Attributes [(''hash'', ''AB''), (''log'', [])]"
  have "distinct [''log'', ''hash'']" by simp
  moreover have "set [''log'', ''hash''] = hm_keys (inner ?a)" by auto
  ultimately have "fst (attr_run ?a (map Take [''log'', ''hash''])) =
      map (get_attr ?a) [''log'', ''hash''] \<and>
    inner (snd (attr_run ?a (map Take [''log'', ''hash'']))) = []"
    using take_all_drains by blast
  then show ?thesis by (simp add: get_attr_def)
qed

text \<open>C14: The round trip over the wire survives the text: when the JSON payload of
  the wire event of an event with distinct keys is written as text, read back and
  parsed by the attribute parser, the result is the attribute map of the event, with
  the same value for every key and the same number of entries.\<close>
theorem wire_text_roundtrip:
  assumes "wf_event e"
  shows "\<exists>a. map_option try_from (json_read (json_to_string (abci_event_json (from_event e))))
               = Some (Inr a) \<and>
             (\<forall>k. get_attr a k = get e k) \<and>
             length (inner a) = length (attributes e)"
proof -
  from assms have inv: "hm_inv (attributes e)" by (simp add: wf_event_def)
  from insert_all_agrees [OF inv inv refl] show ?thesis
    by (simp add: try_from_text_of_wire get_attr_def get_def)
qed

theorem wire_text_roundtrip_witness:
  "\<exists>a. map_option try_from (json_read (json_to_string (abci_event_json (from_event
          \<lparr>event_type = Accepted, level = Tx,
           attributes = [(''hash'', ''0A''), (''log'', [CHR 0x22, CHR 0x5C])]\<rparr>))))
         = Some (Inr a) \<and>
       get_attr a ''hash'' = Some ''0A'' \<and> get_attr a ''log'' = Some [CHR 0x22, CHR 0x5C] \<and>
       length (inner a) = 2"
proof -
  let ?e = "\<lparr>event_type = Accepted, level = Tx,
             attributes = [(''hash'', ''0A''), (''log'', [CHR 0x22, CHR 0x5C])]\<rparr>"
  have "wf_event ?e" by (simp add: wf_event_def)
  from wire_text_roundtrip [OF this] obtain a where
    "map_option try_from (json_read (json_to_string (abci_event_json (from_event ?e))))
     = Some (Inr a)"
    "\<forall>k. get_attr a k = get ?e k" "length (inner a) = length (attributes ?e)"
    by blast
  then show ?thesis by (intro exI [of _ a]) (simp add: get_def)
qed

text \<open>C16: From the node to the subscriber: an event the module has built, converted
  to the wire event, written as JSON text, read back and parsed, hands a subscriber
  that takes every key once, in any order, exactly the values the node had stored
  under these keys, every one of them present, and leaves nothing behind.\<close>
theorem built_event_delivered:
  assumes "built e" and "distinct ks" and "set ks = hm_keys (attributes e)"
  shows "\<exists>a. map_option try_from (json_read (json_to_string (abci_event_json (from_event e))))
               = Some (Inr a) \<and>
             fst (attr_run a (map Take ks)) = map (get e) ks \<and>
             list_all (\<lambda>r. r \<noteq> None) (fst (attr_run a (map Take ks))) \<and>
             inner (snd (attr_run a (map Take ks))) = []"
proof -
  let ?a = "Attributes (insert_all (attributes e) [])"
  from assms(1) have inv: "hm_inv (attributes e)"
    using built_wf_event by (simp add: wf_event_def)
  note ag = insert_all_agrees [OF inv inv refl]
  from ag(2) assms(3) have "hm_keys (inner ?a) \<subseteq> set ks" by simp
  with assms(2) have "fst (attr_run ?a (map Take ks)) = map (get_attr ?a) ks \<and>
      inner (snd (attr_run ?a (map Take ks))) = []"
    by (rule attr_run_take_all)
  moreover from ag(1) have "map (get_attr ?a) ks = map (get e) ks"
    by (simp add: get_attr_def get_def)
  moreover from assms(3) have "list_all (\<lambda>r. r \<noteq> None) (map (get e) ks)"
    by (auto simp: list_all_iff get_def hm_keys_dom)
  ultimately show ?thesis by (simp add: try_from_text_of_wire)
qed

theorem built_event_delivered_witness:
  "\<exists>a. map_option try_from (json_read (json_to_string (abci_event_json (from_event
          \<lparr>event_type = Applied, level = Tx,
           attributes = [(''hash'', ''AB''), (''log'', [])]\<rparr>)))) = Some (Inr a) \<and>
       fst (attr_run a [Take ''log'', Take ''hash'']) = [Some [], Some ''AB''] \<and>
       inner (snd (attr_run a [Take ''log'', Take ''hash''])) = []"
proof -
  let ?new = "\<lparr>event_type = Applied, level = Tx, attributes = []\<rparr>"
  let ?e = "\<lparr>event_type = Applied, level = Tx,
             attributes = [(''hash'', ''AB''), (''log'', [])]\<rparr>"
  have "built ?new" by (rule built_new)
  then have "built (?new\<lparr>attributes := AList.update ''hash'' ''AB'' (attributes ?new)\<rparr>)"
    by (rule built_update)
  then have "built \<lparr>event_type = Applied, level = Tx, attributes = [(''hash'', ''AB'')]\<rparr>"
    by simp
  from built_update [OF this, of "''log''" "[]"] have "built ?e" by simp
  moreover have "distinct [''log'', ''hash'']" by simp
  moreover have "set [''log'', ''hash''] = hm_keys (attributes ?e)" by auto
  ultimately obtain a where
    "map_option try_from (json_read (json_to_string (abci_event_json (from_event ?e))))
     = Some (Inr a)"
    "fst (attr_run a (map Take [''log'', ''hash''])) = map (get ?e) [''log'', ''hash'']"
    "inner (snd (attr_run a (map Take [''log'', ''hash'']))) = []"
    using built_event_delivered by blast
  then show ?thesis by (intro exI [of _ a]) (simp add: get_def)
qed

text \<open>C15: The context of a parse error is enough to find the malformed record: when
  the parser returns \<^verbatim>\<open>MissingKey\<close> or \<^verbatim>\<open>MissingValue\<close>, the string the error carries reads
  back as a record of the array \<^verbatim>\<open>attributes\<close>, and that record is one for which the
  parser reports exactly this error.\<close>
theorem error_context_reads_back:
  assumes "try_from j = Inl (Err e)" and "e \<noteq> MissingAttributes"
  shows "\<exists>items bad s. json_get j ''attributes'' = Some (JArray items) \<and> bad \<in> set items \<and>
           (e = MissingKey s \<or> e = MissingValue s) \<and> json_read s = Some bad \<and>
           record_failure bad = Err e"
proof -
  from assms obtain items where
    arr: "json_get j ''attributes'' = Some (JArray items)"
    and "parse_attrs items [] = Inl (Err e)"
    by (auto simp: try_from_def and_then_Inl_iff)
  then obtain good bad rest where "items = good @ bad # rest"
    and "parse_attr bad [] = Inl (Err e)"
    using parse_attrs_Inl_split by blast
  with arr parse_attr_Err_reads_back [of bad "[]" e] show ?thesis by auto
qed

theorem error_context_reads_back_witness:
  "\<exists>bad. json_read ''{key}'' = None \<and>
     json_read (json_to_string (JObject [(''key'', JString ''b'')])) = Some bad \<and>
     record_failure bad = Err (MissingValue (json_to_string (JObject [(''key'', JString ''b'')])))"
proof -
  let ?bad = "JObject [(''key'', JString ''b'')]"
  let ?j = "JObject [(''attributes'',
      JArray [JObject [(''key'', JString ''a''), (''value'', JString ''1'')], ?bad])]"
  have "try_from ?j = Inl (Err (MissingValue (json_to_string ?bad)))"
    by (simp add: try_from_def parse_attr_def)
  from error_context_reads_back [OF this] obtain bad where
    "json_read (json_to_string ?bad) = Some bad"
    "record_failure bad = Err (MissingValue (json_to_string ?bad))"
    by auto
  moreover have "json_read ''{key}'' = None" by (simp add: json_read_eval)
  ultimately show ?thesis by blast
qed

text \<open>C38: The subscriber's operations implement a partial function from keys to
  values: a run of \<^verbatim>\<open>get\<close> and \<^verbatim>\<open>take\<close> operations on a parsed attribute map returns
  what the same run returns on the partial function the map denotes, where \<^verbatim>\<open>get\<close>
  reads the function at the key and \<^verbatim>\<open>take\<close> reads it and removes the key from its
  domain, and the map left over denotes the function left over. No invariant of
  the representation is needed.\<close>
theorem attr_run_refines:
  "fst (attr_run a ops) = fst (a_attr_run (map_of (inner a)) ops) \<and>
   map_of (inner (snd (attr_run a ops))) = snd (a_attr_run (map_of (inner a)) ops)"
proof (induction ops arbitrary: a)
  case Nil
  show ?case by simp
next
  case (Cons op ops)
  from attr_step_refines [of a op] Cons.IH [of "snd (attr_step a op)"] show ?case
    by (simp add: attr_run_Cons split_def Let_def)
qed

end
